theory Spec2Isabelle
  imports Main "HOL-Library.Word"
begin

text \<open>
  A shallow embedding of the two algorithmic parts of the repository: the document
  checksum validators of \<^verbatim>\<open>DocumentValidator\<close> and the structural comparison
  \<^verbatim>\<open>diff\<close>.

  Conventions of the embedding.
  \<^item> A string given to the program is a HOL \<open>string\<close>: a sequence of code units below 256.
    Upper-casing such a string can produce code units above 255, so the strings the
    validators compute are lists of code units (\<open>nat list\<close>); \<open>to_units\<close> reads a string as
    such a list and \<^verbatim>\<open>charCodeAt\<close> is \<open>char_code\<close>. Strings with code units above 255 are
    outside the embedding.
  \<^item> A number that may be \<^verbatim>\<open>NaN\<close> is an \<open>int option\<close> in the validators, with \<open>None\<close> for
    \<^verbatim>\<open>NaN\<close>. Every number the validators compute is an integer below \<open>2^53\<close>, so the
    arithmetic of the host language is exact on them.
  \<^item> Indexing a string out of range gives \<^verbatim>\<open>undefined\<close>, modelled as \<open>None\<close>.
  \<^item> A raised exception is the left summand of a result type \<open>error + 'a\<close>.
  \<^item> An anchored regular expression made of counted character classes is a list of
    (class, minimum, maximum) items, interpreted by \<open>regex_test\<close>.
  \<^item> Names are those of the source. The method \<^verbatim>\<open>normalize\<close> is \<open>normalize_str\<close> and the
    method \<^verbatim>\<open>slice\<close> is \<open>slice_str\<close>, because \<open>normalize\<close> and \<open>slice\<close> are constants of the
    library. The parameters \<^verbatim>\<open>oldValue\<close> and \<^verbatim>\<open>newValue\<close> of \<^verbatim>\<open>diff\<close> are \<open>old\<close> and \<open>new\<close>,
    because \<open>oldValue\<close> and \<open>newValue\<close> are fields of the record \<open>DiffChange\<close>; for the same
    reason the local lists \<^verbatim>\<open>added\<close> and \<^verbatim>\<open>removed\<close> of \<^verbatim>\<open>diff\<close> are \<open>addedItems\<close>,
    \<open>removedItems\<close> (arrays) and \<open>addedKeys\<close>, \<open>removedKeys\<close> (objects).
\<close>

section \<open>Strings and numbers of the host language\<close>

definition char_code :: "char \<Rightarrow> nat" where
  "char_code c = of_char c"

definition to_units :: "string \<Rightarrow> nat list" where
  "to_units s = map char_code s"

definition is_digit :: "nat \<Rightarrow> bool" where
  "is_digit u = (48 \<le> u \<and> u \<le> 57)"

definition is_upper :: "nat \<Rightarrow> bool" where
  "is_upper u = (65 \<le> u \<and> u \<le> 90)"

text \<open>
  The class \<^verbatim>\<open>\s\<close> (white space and line terminators), which is also the white space
  that \<^verbatim>\<open>parseInt\<close> skips: tab to carriage return, space, U+00A0, U+1680, U+2000 to U+200A,
  U+2028, U+2029, U+202F, U+205F, U+3000 and U+FEFF.
\<close>

definition is_whitespace :: "nat \<Rightarrow> bool" where
  "is_whitespace u =
     ((9 \<le> u \<and> u \<le> 13) \<or> u = 32 \<or> u = 160 \<or> u = 5760 \<or> (8192 \<le> u \<and> u \<le> 8202) \<or>
      u = 8232 \<or> u = 8233 \<or> u = 8239 \<or> u = 8287 \<or> u = 12288 \<or> u = 65279)"

text \<open>\<^verbatim>\<open>value.replace(/[-\s]/g, '')\<close>\<close>

definition replace_hyphens_whitespace :: "string \<Rightarrow> string" where
  "replace_hyphens_whitespace v =
     filter (\<lambda>c. \<not> (char_code c = 45 \<or> is_whitespace (char_code c))) v"

text \<open>
  \<^verbatim>\<open>toUpperCase\<close> on code units below 256: the letters a to z and U+00E0 to U+00FE (but the
  division sign U+00F7) move down by 32, the sharp s U+00DF becomes \<^verbatim>\<open>SS\<close>, the micro sign
  U+00B5 becomes U+039C, U+00FF becomes U+0178, and every other code unit stays.
\<close>

definition upper_char :: "char \<Rightarrow> nat list" where
  "upper_char c =
     (let u = char_code c in
      if 97 \<le> u \<and> u \<le> 122 then [u - 32]
      else if u = 181 then [924]
      else if u = 223 then [83, 83]
      else if 224 \<le> u \<and> u \<le> 254 \<and> u \<noteq> 247 then [u - 32]
      else if u = 255 then [376]
      else [u])"

definition toUpperCase :: "string \<Rightarrow> nat list" where
  "toUpperCase s = concat (map upper_char s)"

text \<open>\<^verbatim>\<open>toString\<close> of a natural number: its decimal digits.\<close>

definition digit_char :: "nat \<Rightarrow> char" where
  "digit_char d = char_of (48 + d)"

fun show_nat :: "nat \<Rightarrow> string" where
  "show_nat n = (if n < 10 then [digit_char n] else show_nat (n div 10) @ [digit_char (n mod 10)])"

declare show_nat.simps [simp del]

definition digit_value :: "nat \<Rightarrow> nat" where
  "digit_value u = u - 48"

definition dec_value :: "nat list \<Rightarrow> nat" where
  "dec_value ds = foldl (\<lambda>acc u. acc * 10 + digit_value u) 0 ds"

text \<open>
  \<^verbatim>\<open>parseInt(s, 10)\<close>: leading white space is skipped, one sign is read, then the longest
  run of digits; no digit gives \<^verbatim>\<open>NaN\<close>.
\<close>

definition parseInt :: "nat list \<Rightarrow> int option" where
  "parseInt s =
     (let t = dropWhile is_whitespace s;
          neg = (t \<noteq> [] \<and> hd t = 45);
          u = (if t \<noteq> [] \<and> (hd t = 45 \<or> hd t = 43) then tl t else t);
          ds = takeWhile is_digit u
      in if ds = [] then None
         else Some (if neg then - int (dec_value ds) else int (dec_value ds)))"

text \<open>The remainder operator \<^verbatim>\<open>%\<close>: the sign of the result is the dividend's.\<close>

definition js_rem :: "int option \<Rightarrow> int \<Rightarrow> int option" where
  "js_rem a m =
     (case a of None \<Rightarrow> None
      | Some x \<Rightarrow> if m = 0 then None
                  else Some (if x < 0 then - ((- x) mod \<bar>m\<bar>) else x mod \<bar>m\<bar>))"

definition js_add :: "int option \<Rightarrow> int option \<Rightarrow> int option" where
  "js_add a b = (case (a, b) of (Some x, Some y) \<Rightarrow> Some (x + y) | _ \<Rightarrow> None)"

definition js_mul :: "int option \<Rightarrow> int option \<Rightarrow> int option" where
  "js_mul a b = (case (a, b) of (Some x, Some y) \<Rightarrow> Some (x * y) | _ \<Rightarrow> None)"

text \<open>Comparisons with \<^verbatim>\<open>NaN\<close> are false, and \<^verbatim>\<open>NaN === NaN\<close> is false too.\<close>

definition js_lt :: "int option \<Rightarrow> int option \<Rightarrow> bool" where
  "js_lt a b = (case (a, b) of (Some x, Some y) \<Rightarrow> x < y | _ \<Rightarrow> False)"

definition js_num_eq :: "int option \<Rightarrow> int option \<Rightarrow> bool" where
  "js_num_eq a b = (case (a, b) of (Some x, Some y) \<Rightarrow> x = y | _ \<Rightarrow> False)"

definition char_at :: "nat list \<Rightarrow> int option \<Rightarrow> nat option" where
  "char_at s i =
     (case i of None \<Rightarrow> None
      | Some j \<Rightarrow> if 0 \<le> j \<and> nat j < length s then Some (s ! nat j) else None)"

text \<open>\<^verbatim>\<open>s.slice(b, e)\<close> and \<^verbatim>\<open>s.slice(b)\<close> for indices that are not negative.\<close>

definition slice_str :: "nat list \<Rightarrow> nat \<Rightarrow> nat \<Rightarrow> nat list" where
  "slice_str s b e = take (e - b) (drop b s)"

definition slice_from :: "nat list \<Rightarrow> nat \<Rightarrow> nat list" where
  "slice_from s b = drop b s"

subsection \<open>Anchored regular expressions of character classes\<close>

datatype char_class = Digits | Uppers | UppersDigits | OneOf string

fun in_class :: "char_class \<Rightarrow> nat \<Rightarrow> bool" where
  "in_class Digits u = is_digit u"
| "in_class Uppers u = is_upper u"
| "in_class UppersDigits u = (is_upper u \<or> is_digit u)"
| "in_class (OneOf cs) u = (u \<in> set (to_units cs))"

text \<open>
  \<open>regex_test items s\<close>: the whole of \<open>s\<close> splits into consecutive runs, the i-th run made
  of code units of the i-th class and of a length within the item's bounds.
\<close>

fun regex_test :: "(char_class \<times> nat \<times> nat) list \<Rightarrow> nat list \<Rightarrow> bool" where
  "regex_test [] s = (s = [])"
| "regex_test ((cls, lo, hi) # rest) s =
     list_ex (\<lambda>k. k \<le> length s \<and> list_all (in_class cls) (take k s) \<and> regex_test rest (drop k s))
       [lo..<Suc hi]"

section \<open>Document validators\<close>

text \<open>
  The class \<^verbatim>\<open>DocumentValidator\<close>. The parameter type of its four validators is
  \<^verbatim>\<open>string | null | undefined\<close>; a validator returns a boolean or raises.
\<close>

datatype nullable_string = JsNull | JsUndefined | JsString string

datatype error = TypeError

text \<open>\<^verbatim>\<open>!value\<close>: true on \<^verbatim>\<open>null\<close>, \<^verbatim>\<open>undefined\<close> and the empty string.\<close>

fun falsy :: "nullable_string \<Rightarrow> bool" where
  "falsy JsNull = True"
| "falsy JsUndefined = True"
| "falsy (JsString s) = (s = [])"

definition DNI_LETTERS :: "nat list" where
  "DNI_LETTERS = to_units ''TRWAGMYFPDXBNJZSQVHLCKE''"

text \<open>
  \<^verbatim>\<open>value.replace(/[-\s]/g, '').toUpperCase()\<close>. Calling the method \<^verbatim>\<open>replace\<close> of \<^verbatim>\<open>null\<close>
  or \<^verbatim>\<open>undefined\<close> raises a \<^verbatim>\<open>TypeError\<close>; the validators call \<^verbatim>\<open>normalize\<close> only after their
  guard \<^verbatim>\<open>if (!value) return false\<close>.
\<close>

fun normalize_str :: "nullable_string \<Rightarrow> error + nat list" where
  "normalize_str (JsString v) = Inr (toUpperCase (replace_hyphens_whitespace v))"
| "normalize_str JsNull = Inl TypeError"
| "normalize_str JsUndefined = Inl TypeError"

text \<open>\<^verbatim>\<open>/^[0-9]{8}[A-Z]$/\<close>\<close>

definition DNI_PATTERN :: "(char_class \<times> nat \<times> nat) list" where
  "DNI_PATTERN = [(Digits, 8, 8), (Uppers, 1, 1)]"

text \<open>\<^verbatim>\<open>/^[XYZ][0-9]{7}[A-Z]$/\<close>\<close>

definition NIE_PATTERN :: "(char_class \<times> nat \<times> nat) list" where
  "NIE_PATTERN = [(OneOf ''XYZ'', 1, 1), (Digits, 7, 7), (Uppers, 1, 1)]"

text \<open>\<^verbatim>\<open>/^[0-9]{12}$/\<close>\<close>

definition SSN_PATTERN :: "(char_class \<times> nat \<times> nat) list" where
  "SSN_PATTERN = [(Digits, 12, 12)]"

text \<open>\<^verbatim>\<open>/^[A-Z]{2}[0-9]{2}[A-Z0-9]{9,30}$/\<close>\<close>

definition IBAN_PATTERN :: "(char_class \<times> nat \<times> nat) list" where
  "IBAN_PATTERN = [(Uppers, 2, 2), (Digits, 2, 2), (UppersDigits, 9, 30)]"

text \<open>
  Each validator returns \<^verbatim>\<open>false\<close> on a falsy argument, then on a normalized string that
  fails the format, and only then computes the checksum.
\<close>

definition isValidDNI :: "nullable_string \<Rightarrow> error + bool" where
  "isValidDNI dni =
     (if falsy dni then Inr False
      else case normalize_str dni of
        Inl e \<Rightarrow> Inl e
      | Inr normalized \<Rightarrow>
          if \<not> regex_test DNI_PATTERN normalized then Inr False
          else let number = parseInt (slice_str normalized 0 8);
                   letter = char_at normalized (Some 8);
                   expectedLetter = char_at DNI_LETTERS (js_rem number 23)
               in Inr (letter = expectedLetter))"

definition prefixValue :: "(nat \<times> nat) list" where
  "prefixValue = [(char_code CHR ''X'', char_code CHR ''0''), (char_code CHR ''Y'', char_code CHR ''1''),
                  (char_code CHR ''Z'', char_code CHR ''2'')]"

definition isValidNIE :: "nullable_string \<Rightarrow> error + bool" where
  "isValidNIE nie =
     (if falsy nie then Inr False
      else case normalize_str nie of
        Inl e \<Rightarrow> Inl e
      | Inr normalized \<Rightarrow>
          if \<not> regex_test NIE_PATTERN normalized then Inr False
          else let prefix = char_at normalized (Some 0);
                   mapped = (case prefix of None \<Rightarrow> None | Some p \<Rightarrow> map_of prefixValue p);
                   numberStr = (case mapped of None \<Rightarrow> to_units ''undefined'' | Some d \<Rightarrow> [d])
                                 @ slice_str normalized 1 8;
                   number = parseInt numberStr;
                   letter = char_at normalized (Some 8)
               in Inr (letter = char_at DNI_LETTERS (js_rem number 23)))"

definition isValidSpanishSSN :: "nullable_string \<Rightarrow> error + bool" where
  "isValidSpanishSSN ssn =
     (if falsy ssn then Inr False
      else case normalize_str ssn of
        Inl e \<Rightarrow> Inl e
      | Inr normalized \<Rightarrow>
          if \<not> regex_test SSN_PATTERN normalized then Inr False
          else let province = parseInt (slice_str normalized 0 2);
                   number = parseInt (slice_str normalized 2 10);
                   checksum = parseInt (slice_from normalized 10)
               in if js_lt province (Some 1) \<or> js_lt (Some 52) province then Inr False
                  else let multiplier = (if js_lt number (Some 10000000) then 10000000 else 100000000);
                           expected = js_rem (js_add (js_mul province (Some multiplier)) number) 97
                       in Inr (js_num_eq checksum expected))"

text \<open>
  The letters of the rearranged IBAN become two decimal digits each
  (\<^verbatim>\<open>code >= 65 ? (code - 55).toString() : c\<close>), and the digit string is reduced modulo 97
  one character at a time.
\<close>

definition letters_to_numbers :: "nat list \<Rightarrow> nat list" where
  "letters_to_numbers rearranged =
     concat (map (\<lambda>code. if code \<ge> 65 then to_units (show_nat (code - 55)) else [code]) rearranged)"

definition mod97 :: "nat list \<Rightarrow> int option" where
  "mod97 numeric =
     foldl (\<lambda>remainder digit. js_rem (js_add (js_mul remainder (Some 10)) (parseInt [digit])) 97)
       (Some 0) numeric"

definition isValidIBAN :: "nullable_string \<Rightarrow> error + bool" where
  "isValidIBAN iban =
     (if falsy iban then Inr False
      else case normalize_str iban of
        Inl e \<Rightarrow> Inl e
      | Inr normalized \<Rightarrow>
          if \<not> regex_test IBAN_PATTERN normalized then Inr False
          else let rearranged = slice_from normalized 4 @ slice_str normalized 0 4;
                   numeric = letters_to_numbers rearranged;
                   remainder = mod97 numeric
               in Inr (js_num_eq remainder (Some 1)))"

subsection \<open>The formats and the normalization, in the words of the specification\<close>

text \<open>
  The normalization as the specification words it, one character at a time: hyphens and
  white space are removed, every other character is put in upper case. The white space
  below 256 is listed by code unit, the capitals by letter.
\<close>

definition spec_strippable :: "char \<Rightarrow> bool" where
  "spec_strippable c = (char_code c \<in> set [45, 9, 10, 11, 12, 13, 32, 160])"

definition spec_upper :: "char \<Rightarrow> nat list" where
  "spec_upper c =
     (if c \<in> set ''abcdefghijklmnopqrstuvwxyz'' then [char_code c - 32]
      else if char_code c \<in> set ([224..<247] @ [248..<255]) then [char_code c - 32]
      else if char_code c = 223 then to_units ''SS''
      else if char_code c = 255 then [376]
      else if char_code c = 181 then [924]
      else [char_code c])"

fun spec_normalize :: "string \<Rightarrow> nat list" where
  "spec_normalize [] = []"
| "spec_normalize (c # cs) =
     (if spec_strippable c then spec_normalize cs else spec_upper c @ spec_normalize cs)"

text \<open>
  The four formats, read on the normalized string: eight digits and a capital; one of
  X, Y, Z, seven digits and a capital; twelve digits; two capitals, two digits and nine
  to thirty capitals or digits.
\<close>

definition spec_DNI_format :: "nat list \<Rightarrow> bool" where
  "spec_DNI_format t = (length t = 9 \<and> list_all is_digit (take 8 t) \<and> is_upper (t ! 8))"

definition spec_NIE_format :: "nat list \<Rightarrow> bool" where
  "spec_NIE_format t =
     (length t = 9 \<and> t ! 0 \<in> set (to_units ''XYZ'') \<and> list_all is_digit (take 7 (drop 1 t)) \<and>
      is_upper (t ! 8))"

definition spec_SSN_format :: "nat list \<Rightarrow> bool" where
  "spec_SSN_format t = (length t = 12 \<and> list_all is_digit t)"

definition spec_IBAN_format :: "nat list \<Rightarrow> bool" where
  "spec_IBAN_format t =
     (13 \<le> length t \<and> length t \<le> 34 \<and> list_all is_upper (take 2 t) \<and>
      list_all is_digit (take 2 (drop 2 t)) \<and> list_all (\<lambda>u. is_upper u \<or> is_digit u) (drop 4 t))"

section \<open>Structural comparison\<close>

text \<open>
  Values are the data values of the host language: \<^verbatim>\<open>undefined\<close>, \<^verbatim>\<open>null\<close>,
  booleans, numbers, strings, arrays and plain objects. A number is an integer from \<open>- 2^53\<close> to \<open>2^53 - 1\<close>
  (a word of 54 bits read as a signed integer; the host language represents these integers
  exactly and prints them in decimal), the negative zero, \<^verbatim>\<open>NaN\<close> or an infinity; numbers
  with a fractional part and larger integers are outside the embedding. A string is a
  sequence of code units below 256. An object is the list of its own enumerable properties in the order
  \<^verbatim>\<open>Object.keys\<close> gives them, so its keys are distinct (no result below depends on that);
  an array, read as an object, has its indices as keys. Values are trees, so every value is
  free of cycles, and every value can be serialized.
\<close>

datatype jsnum = NaN | PosInfinity | NegInfinity | NegZero | Finite "54 word"

datatype jsval =
    Undefined
  | Null
  | Bool bool
  | Num jsnum
  | Str string
  | Arr "jsval list"
  | Obj "(string \<times> jsval) list"

text \<open>The tags \<^verbatim>\<open>typeof\<close> gives on these values; \<^verbatim>\<open>null\<close> and arrays are tagged \<^verbatim>\<open>object\<close>.\<close>

datatype jstype = TUndefined | TObject | TBoolean | TNumber | TString

fun typeof :: "jsval \<Rightarrow> jstype" where
  "typeof Undefined = TUndefined"
| "typeof Null = TObject"
| "typeof (Bool b) = TBoolean"
| "typeof (Num n) = TNumber"
| "typeof (Str s) = TString"
| "typeof (Arr xs) = TObject"
| "typeof (Obj kvs) = TObject"

fun type_name :: "jstype \<Rightarrow> string" where
  "type_name TUndefined = ''undefined''"
| "type_name TObject = ''object''"
| "type_name TBoolean = ''boolean''"
| "type_name TNumber = ''number''"
| "type_name TString = ''string''"

text \<open>\<^verbatim>\<open>v == null\<close>\<close>

fun nullish :: "jsval \<Rightarrow> bool" where
  "nullish Undefined = True"
| "nullish Null = True"
| "nullish v = False"

fun isArray :: "jsval \<Rightarrow> bool" where
  "isArray (Arr xs) = True"
| "isArray v = False"

text \<open>
  \<^verbatim>\<open>a === b\<close> on primitive values: \<^verbatim>\<open>NaN\<close> is not equal to itself. \<^verbatim>\<open>diff\<close> applies it to
  primitive values only (arrays and objects are handled before).
\<close>

fun is_zero :: "jsnum \<Rightarrow> bool" where
  "is_zero NegZero = True"
| "is_zero (Finite w) = (w = 0)"
| "is_zero n = False"

fun strict_equals :: "jsval \<Rightarrow> jsval \<Rightarrow> bool" where
  "strict_equals (Num a) (Num b) = (a \<noteq> NaN \<and> (a = b \<or> (is_zero a \<and> is_zero b)))"
| "strict_equals a b = (a = b)"

subsection \<open>\<^verbatim>\<open>JSON.stringify\<close>\<close>

text \<open>
  \<^verbatim>\<open>JSON.stringify\<close> gives \<^verbatim>\<open>undefined\<close> (here \<open>None\<close>) on \<^verbatim>\<open>undefined\<close>; inside an array
  \<^verbatim>\<open>undefined\<close> is written \<^verbatim>\<open>null\<close>, and a property whose value is \<^verbatim>\<open>undefined\<close> is left
  out. \<^verbatim>\<open>NaN\<close> and the infinities are written \<^verbatim>\<open>null\<close>. Keys are written in the order of
  the object, which is why two objects with the same properties in a different order have
  different serializations.
\<close>

definition show_int :: "int \<Rightarrow> string" where
  "show_int i = (if i < 0 then CHR ''-'' # show_nat (nat (- i)) else show_nat (nat i))"

fun number_to_json :: "jsnum \<Rightarrow> string" where
  "number_to_json (Finite w) = show_int (sint w)"
| "number_to_json NegZero = ''0''"
| "number_to_json n = ''null''"

definition hex_digit :: "nat \<Rightarrow> char" where
  "hex_digit d = (if d < 10 then char_of (48 + d) else char_of (87 + d))"

definition quote_char :: "char \<Rightarrow> string" where
  "quote_char c =
     (let code = char_code c in
      if code = 8 then [CHR 0x5C, CHR ''b'']
      else if code = 9 then [CHR 0x5C, CHR ''t'']
      else if code = 10 then [CHR 0x5C, CHR ''n'']
      else if code = 12 then [CHR 0x5C, CHR ''f'']
      else if code = 13 then [CHR 0x5C, CHR ''r'']
      else if code = 34 then [CHR 0x5C, CHR 0x22]
      else if code = 92 then [CHR 0x5C, CHR 0x5C]
      else if code < 32 then [CHR 0x5C, CHR ''u'', CHR ''0'', CHR ''0'', hex_digit (code div 16), hex_digit (code mod 16)]
      else [c])"

definition quote :: "string \<Rightarrow> string" where
  "quote s = CHR 0x22 # concat (map quote_char s) @ [CHR 0x22]"

fun join :: "string \<Rightarrow> string list \<Rightarrow> string" where
  "join sep [] = []"
| "join sep [x] = x"
| "join sep (x # y # ys) = x @ sep @ join sep (y # ys)"

fun JSON_stringify :: "jsval \<Rightarrow> string option" where
  "JSON_stringify Undefined = None"
| "JSON_stringify Null = Some ''null''"
| "JSON_stringify (Bool b) = Some (if b then ''true'' else ''false'')"
| "JSON_stringify (Num n) = Some (number_to_json n)"
| "JSON_stringify (Str s) = Some (quote s)"
| "JSON_stringify (Arr xs) =
     Some (''['' @ join '','' (map (\<lambda>x. case JSON_stringify x of None \<Rightarrow> ''null'' | Some s \<Rightarrow> s) xs) @ '']'')"
| "JSON_stringify (Obj kvs) =
     Some (''{'' @ join '','' (concat (map (\<lambda>(k, v). case JSON_stringify v of None \<Rightarrow> []
                                                   | Some s \<Rightarrow> [quote k @ '':'' @ s]) kvs)) @ ''}'')"

text \<open>
  \<^verbatim>\<open>serializeValue\<close> returns the result of \<^verbatim>\<open>JSON.stringify\<close> as a value of the host
  language: a string or \<^verbatim>\<open>undefined\<close>.
\<close>

definition serializeValue :: "jsval \<Rightarrow> jsval" where
  "serializeValue v = (case JSON_stringify v of None \<Rightarrow> Undefined | Some s \<Rightarrow> Str s)"

subsection \<open>Results\<close>

text \<open>
  The interface \<^verbatim>\<open>DiffChange\<close>: an optional field that is absent is \<open>None\<close>. A result that
  is not \<^verbatim>\<open>null\<close> is an object with the single key \<^verbatim>\<open>name\<close>, whose value is one change
  (\<open>Single\<close>) or the list \<^verbatim>\<open>differences\<close> (\<open>Multiple\<close>); an item of that list is a change
  pushed by the object branch itself (\<open>ItemChange\<close>) or the result of a recursive call
  (\<open>ItemResult\<close>). \<^verbatim>\<open>null\<close> is \<open>None\<close>.
\<close>

record DiffChange =
  description :: string
  oldValue :: "jsval option"
  newValue :: "jsval option"
  added :: "jsval option"
  removed :: "jsval option"
  properties :: "jsval option"

definition change :: "string \<Rightarrow> DiffChange" where
  "change d = \<lparr>description = d, oldValue = None, newValue = None, added = None, removed = None,
               properties = None\<rparr>"

datatype DiffResult = Single string DiffChange | Multiple string "DiffItem list"
  and DiffItem = ItemChange DiffChange | ItemResult DiffResult

subsection \<open>The comparison\<close>

fun elements :: "jsval \<Rightarrow> jsval list" where
  "elements (Arr xs) = xs"
| "elements v = []"

text \<open>The own enumerable properties, in the order of \<^verbatim>\<open>Object.keys\<close>, and property access.\<close>

fun entries :: "jsval \<Rightarrow> (string \<times> jsval) list" where
  "entries (Arr xs) = zip (map show_nat [0..<length xs]) xs"
| "entries (Obj kvs) = kvs"
| "entries v = []"

definition get :: "(string \<times> jsval) list \<Rightarrow> string \<Rightarrow> jsval" where
  "get obj k = (case map_of obj k of None \<Rightarrow> Undefined | Some v \<Rightarrow> v)"

text \<open>\<^verbatim>\<open>.filter((c) => c !== null)\<close>\<close>

fun non_null :: "'a option list \<Rightarrow> 'a list" where
  "non_null [] = []"
| "non_null (None # cs) = non_null cs"
| "non_null (Some c # cs) = c # non_null cs"

text \<open>
  \<^verbatim>\<open>diff(oldValue, newValue, name)\<close>, branch by branch in the order of the source: both
  nullish; different \<^verbatim>\<open>typeof\<close> tags; old nullish; new nullish; two arrays; two values
  tagged \<^verbatim>\<open>object\<close>; two primitive values. The sets \<^verbatim>\<open>oldSerialized\<close>, \<^verbatim>\<open>newSerialized\<close>,
  \<^verbatim>\<open>oldKeys\<close> and \<^verbatim>\<open>newKeys\<close> are used for membership only; spreading a set of keys gives
  the keys back in their order. A spread of \<^verbatim>\<open>removed.length && {...}\<close> adds the field when
  the list is not empty and nothing otherwise.
\<close>

function diff :: "jsval \<Rightarrow> jsval \<Rightarrow> string \<Rightarrow> DiffResult option" where
  "diff old new name =
     (if nullish old \<and> nullish new then None
      else let oldType = typeof old; newType = typeof new in
      if oldType \<noteq> newType then
        Some (Single name ((change (''Type changed from '' @ type_name oldType @ '' to '' @ type_name newType))
          \<lparr>oldValue := Some (serializeValue old), newValue := Some (serializeValue new)\<rparr>))
      else if nullish old \<and> \<not> nullish new then
        Some (Single name ((change ''Property added'')\<lparr>newValue := Some (serializeValue new)\<rparr>))
      else if \<not> nullish old \<and> nullish new then
        Some (Single name ((change ''Property removed'')\<lparr>oldValue := Some (serializeValue old)\<rparr>))
      else if isArray old \<and> isArray new then
        (let oldSerialized = set (map serializeValue (elements old));
             newSerialized = set (map serializeValue (elements new));
             addedItems = filter (\<lambda>x. serializeValue x \<notin> oldSerialized) (elements new);
             removedItems = filter (\<lambda>x. serializeValue x \<notin> newSerialized) (elements old)
         in if addedItems = [] \<and> removedItems = [] then None
            else Some (Single name ((change ''Array modified'')
              \<lparr>removed := (if removedItems \<noteq> [] then Some (serializeValue (Arr removedItems)) else None),
               added := (if addedItems \<noteq> [] then Some (serializeValue (Arr addedItems)) else None)\<rparr>)))
      else if typeof old = TObject \<and> typeof new = TObject then
        (let oldObj = entries old;
             newObj = entries new;
             oldKeys = map fst oldObj;
             newKeys = map fst newObj;
             addedKeys = filter (\<lambda>k. k \<notin> set oldKeys) newKeys;
             removedKeys = filter (\<lambda>k. k \<notin> set newKeys) oldKeys;
             common = filter (\<lambda>k. k \<in> set newKeys) oldKeys;
             changes = non_null (map (\<lambda>k. diff (get oldObj k) (get newObj k) k) common);
             differences =
               (if addedKeys \<noteq> [] then
                  [ItemChange ((change ''Properties added'')
                     \<lparr>properties := Some (Obj (map (\<lambda>k. (k, get newObj k)) addedKeys))\<rparr>)]
                else [])
               @ (if removedKeys \<noteq> [] then
                  [ItemChange ((change ''Properties removed'')
                     \<lparr>properties := Some (Arr (map Str removedKeys))\<rparr>)]
                else [])
               @ map ItemResult changes
         in if differences \<noteq> [] then Some (Multiple name differences) else None)
      else if \<not> strict_equals old new then
        Some (Single name ((change ''Value changed'')\<lparr>oldValue := Some old, newValue := Some new\<rparr>))
      else None)"
  by pat_completeness auto
termination
proof (relation "measure (\<lambda>(old, new, name). size old)", goal_cases)
  case 1
  show ?case by simp
next
  case (2 old new name oldType newType oldObj newObj oldKeys newKeys addedKeys removedKeys common k)
  then have obj: "typeof old = TObject" and nn: "\<not> nullish old" and oldObj: "oldObj = entries old"
    by auto
  have "size (get (entries old) k) < size old"
  proof (cases "map_of (entries old) k")
    case None
    then have "get (entries old) k = Undefined"
      by (simp add: get_def)
    moreover have "0 < size old"
      using obj nn by (cases old) simp_all
    ultimately show ?thesis by simp
  next
    case (Some v)
    then have mem: "(k, v) \<in> set (entries old)"
      by (rule map_of_SomeD)
    have "size v < size old"
    proof (cases old)
      case (Arr xs)
      with mem have "v \<in> set xs"
        by (auto dest: set_zip_rightD)
      then have "size v \<le> size_list size xs"
        by (simp add: size_list_estimation')
      with Arr show ?thesis by simp
    next
      case (Obj kvs)
      with mem have "(k, v) \<in> set kvs" by simp
      then have "size_prod (\<lambda>x. 0) size (k, v) \<le> size_list (size_prod (\<lambda>x. 0) size) kvs"
        by (simp add: size_list_estimation')
      with Obj show ?thesis by simp
    qed (use mem in simp_all)
    with Some show ?thesis by (simp add: get_def)
  qed
  then show ?case
    using oldObj by simp
qed

declare diff.simps [simp del]

text \<open>
  The list \<^verbatim>\<open>differences\<close> that the object branch of \<^verbatim>\<open>diff\<close> builds from the properties of
  the two values.
\<close>

definition object_differences ::
  "(string \<times> jsval) list \<Rightarrow> (string \<times> jsval) list \<Rightarrow> DiffItem list" where
  "object_differences oldObj newObj =
     (let oldKeys = map fst oldObj;
          newKeys = map fst newObj;
          addedKeys = filter (\<lambda>k. k \<notin> set oldKeys) newKeys;
          removedKeys = filter (\<lambda>k. k \<notin> set newKeys) oldKeys;
          common = filter (\<lambda>k. k \<in> set newKeys) oldKeys;
          changes = non_null (map (\<lambda>k. diff (get oldObj k) (get newObj k) k) common)
      in (if addedKeys \<noteq> [] then
            [ItemChange ((change ''Properties added'')
               \<lparr>properties := Some (Obj (map (\<lambda>k. (k, get newObj k)) addedKeys))\<rparr>)]
          else [])
         @ (if removedKeys \<noteq> [] then
              [ItemChange ((change ''Properties removed'')
                 \<lparr>properties := Some (Arr (map Str removedKeys))\<rparr>)]
            else [])
         @ map ItemResult changes)"

subsection \<open>Equality of values\<close>

text \<open>
  Deep equality of two values: the same primitive value (\<^verbatim>\<open>NaN\<close> taken equal to itself, the two zeros taken distinct),
  arrays of the same length with deeply equal elements at each index, objects with the same
  set of keys and deeply equal values under each key, whatever the order of the keys.
\<close>

fun deep_equal :: "jsval \<Rightarrow> jsval \<Rightarrow> bool" where
  "deep_equal (Arr xs) (Arr ys) = list_all2 deep_equal xs ys"
| "deep_equal (Obj p) (Obj q) =
     (set (map fst p) = set (map fst q) \<and> list_all (\<lambda>(k, v). deep_equal v (get q k)) p)"
| "deep_equal a b = (a = b)"

text \<open>
  Deep equality together with the condition under which the comparison sees it: two arrays
  are related when they are deeply equal and have the same set of element serializations.
\<close>

fun deep_equal_by_serialization :: "jsval \<Rightarrow> jsval \<Rightarrow> bool" where
  "deep_equal_by_serialization (Arr xs) (Arr ys) =
     (list_all2 deep_equal xs ys \<and> set (map serializeValue xs) = set (map serializeValue ys))"
| "deep_equal_by_serialization (Obj p) (Obj q) =
     (set (map fst p) = set (map fst q) \<and>
      list_all (\<lambda>(k, v). deep_equal_by_serialization v (get q k)) p)"
| "deep_equal_by_serialization a b = (a = b)"

text \<open>No \<^verbatim>\<open>NaN\<close> is reached from the value through object properties alone.\<close>

fun no_NaN_outside_arrays :: "jsval \<Rightarrow> bool" where
  "no_NaN_outside_arrays (Num n) = (n \<noteq> NaN)"
| "no_NaN_outside_arrays (Obj p) = list_all (\<lambda>(k, v). no_NaN_outside_arrays v) p"
| "no_NaN_outside_arrays v = True"

section \<open>Properties of the document validators\<close>

subsection \<open>The normalization\<close>

text \<open>
  On every input string the normalization of the code, \<^verbatim>\<open>replace\<close> then \<^verbatim>\<open>toUpperCase\<close>, is the
  normalization of the specification (\<open>normalize_spec\<close>).
\<close>

lemma char_code_less: "char_code c < 256"
  unfolding char_code_def by (rule nat_of_char_less_256)

lemma is_whitespace_char:
  "is_whitespace (char_code c) \<longleftrightarrow> (9 \<le> char_code c \<and> char_code c \<le> 13) \<or> char_code c = 32 \<or> char_code c = 160"
  using char_code_less[of c] by (auto simp: is_whitespace_def)

lemma spec_strippable_iff:
  "spec_strippable c \<longleftrightarrow> char_code c = 45 \<or> is_whitespace (char_code c)"
  unfolding is_whitespace_char spec_strippable_def by auto

lemma lower_letter_iff:
  "c \<in> set ''abcdefghijklmnopqrstuvwxyz'' \<longleftrightarrow> 97 \<le> char_code c \<and> char_code c \<le> 122"
proof -
  have "c \<in> set ''abcdefghijklmnopqrstuvwxyz''
      \<longleftrightarrow> char_code c \<in> char_code ` set ''abcdefghijklmnopqrstuvwxyz''"
    unfolding char_code_def by (auto simp del: set_simps)
  also have "char_code ` set ''abcdefghijklmnopqrstuvwxyz'' = {97..122}"
    unfolding char_code_def by (simp, auto, arith)
  finally show ?thesis by simp
qed

lemma spec_upper_eq: "spec_upper c = upper_char c"
proof -
  have r: "char_code c \<in> set ([224..<247] @ [248..<255])
      \<longleftrightarrow> 224 \<le> char_code c \<and> char_code c \<le> 254 \<and> char_code c \<noteq> 247"
    unfolding set_append set_upt by auto
  show ?thesis
    unfolding spec_upper_def upper_char_def Let_def lower_letter_iff r
    by (auto simp: to_units_def char_code_def)
qed

lemma normalize_spec:
  "toUpperCase (replace_hyphens_whitespace s) = spec_normalize s"
  by (induction s)
     (simp_all add: toUpperCase_def replace_hyphens_whitespace_def spec_strippable_iff spec_upper_eq)

lemma normalize_str_JsString: "normalize_str (JsString s) = Inr (spec_normalize s)"
  by (simp add: normalize_spec)

subsection \<open>The formats\<close>

text \<open>
  On a string of digits \<^verbatim>\<open>parseInt\<close> reads the decimal value, and each anchored pattern is the
  format the specification gives.
\<close>

lemma is_digit_not_space: "is_digit u \<Longrightarrow> \<not> is_whitespace u"
  by (auto simp: is_digit_def is_whitespace_def)

lemma is_digit_not_sign: "is_digit u \<Longrightarrow> u \<noteq> 45 \<and> u \<noteq> 43"
  by (auto simp: is_digit_def)

lemma parseInt_digits:
  assumes "list_all is_digit ds" "ds \<noteq> []"
  shows "parseInt ds = Some (int (dec_value ds))"
proof -
  obtain c cs where ds: "ds = c # cs" using assms(2) by (cases ds) auto
  have c: "is_digit c" using assms(1) ds by simp
  have t: "dropWhile is_whitespace ds = ds"
    using c ds by (simp add: is_digit_not_space)
  have tw: "takeWhile is_digit ds = ds"
    using assms(1) by (simp add: list_all_iff)
  have hd: "hd ds \<noteq> 45" "hd ds \<noteq> 43"
    using is_digit_not_sign[OF c] ds by simp_all
  show ?thesis
    unfolding parseInt_def Let_def t
    using hd assms(2) by (simp add: tw)
qed

lemma in_class_simps_fun:
  "in_class Digits = is_digit" "in_class Uppers = is_upper"
  "in_class UppersDigits = (\<lambda>u. is_upper u \<or> is_digit u)"
  "in_class (OneOf cs) = (\<lambda>u. u \<in> set (to_units cs))"
  by (rule ext, simp)+

lemma regex_fixed:
  "regex_test ((cls, n, n) # rest) s \<longleftrightarrow>
     n \<le> length s \<and> list_all (in_class cls) (take n s) \<and> regex_test rest (drop n s)"
  by simp

lemma regex_last:
  "regex_test [(cls, lo, hi)] s \<longleftrightarrow> lo \<le> length s \<and> length s \<le> hi \<and> list_all (in_class cls) s"
proof
  assume "regex_test [(cls, lo, hi)] s"
  then obtain k where k: "k \<in> set [lo..<Suc hi]" "k \<le> length s"
      "list_all (in_class cls) (take k s)" "drop k s = []"
    by (auto simp: list_ex_iff)
  from k(2,4) have "k = length s" by simp
  with k(1,3) show "lo \<le> length s \<and> length s \<le> hi \<and> list_all (in_class cls) s"
    by auto
next
  assume "lo \<le> length s \<and> length s \<le> hi \<and> list_all (in_class cls) s"
  then have "length s \<in> set [lo..<Suc hi] \<and> length s \<le> length s \<and>
      list_all (in_class cls) (take (length s) s) \<and> regex_test [] (drop (length s) s)"
    by auto
  then show "regex_test [(cls, lo, hi)] s"
    unfolding regex_test.simps list_ex_iff by blast
qed

lemma single_char: "length u = 1 \<Longrightarrow> list_all P u \<longleftrightarrow> P (u ! 0)"
  by (cases u) simp_all

lemma last_char: "length t = Suc n \<Longrightarrow> list_all P (drop n t) \<longleftrightarrow> P (t ! n)"
proof -
  assume len: "length t = Suc n"
  then have "length (drop n t) = 1" "drop n t ! 0 = t ! n" by simp_all
  then show ?thesis
    using single_char[of "drop n t" P] by simp
qed

lemma first_char: "0 < length t \<Longrightarrow> list_all P (take (Suc 0) t) \<longleftrightarrow> P (t ! 0)"
  by (cases t) simp_all

lemma regex_DNI: "regex_test DNI_PATTERN t \<longleftrightarrow> spec_DNI_format t"
proof (cases "length t = 9")
  case True
  then have "list_all is_upper (drop 8 t) \<longleftrightarrow> is_upper (t ! 8)"
    using last_char[of t 8 is_upper] by simp
  with True show ?thesis
    unfolding DNI_PATTERN_def regex_fixed regex_last in_class_simps_fun spec_DNI_format_def
    by simp
next
  case False
  then show ?thesis
    unfolding DNI_PATTERN_def regex_fixed regex_last in_class_simps_fun spec_DNI_format_def
    by auto
qed

lemma regex_NIE: "regex_test NIE_PATTERN t \<longleftrightarrow> spec_NIE_format t"
proof (cases "length t = 9")
  case True
  then have a: "list_all is_upper (drop 8 t) \<longleftrightarrow> is_upper (t ! 8)"
    using last_char[of t 8 is_upper] by simp
  from True have b: "list_all (\<lambda>u. u \<in> set (to_units ''XYZ'')) (take (Suc 0) t)
      \<longleftrightarrow> t ! 0 \<in> set (to_units ''XYZ'')"
    using first_char[of t "\<lambda>u. u \<in> set (to_units ''XYZ'')"] by simp
  from True show ?thesis
    unfolding NIE_PATTERN_def regex_fixed regex_last in_class_simps_fun spec_NIE_format_def
    by (simp add: a b)
next
  case False
  then show ?thesis
    unfolding NIE_PATTERN_def regex_fixed regex_last in_class_simps_fun spec_NIE_format_def
    by auto
qed

lemma regex_SSN: "regex_test SSN_PATTERN t \<longleftrightarrow> spec_SSN_format t"
  unfolding SSN_PATTERN_def regex_fixed in_class_simps_fun spec_SSN_format_def by auto

lemma regex_IBAN: "regex_test IBAN_PATTERN t \<longleftrightarrow> spec_IBAN_format t"
  unfolding IBAN_PATTERN_def regex_fixed regex_last in_class_simps_fun spec_IBAN_format_def
  by auto

subsection \<open>The validators in closed form\<close>

lemma js_rem_nonneg: "0 < m \<Longrightarrow> js_rem (Some (int n)) m = Some (int n mod m)"
  by (simp add: js_rem_def)

lemma char_at_in_range: "n < length s \<Longrightarrow> char_at s (Some (int n)) = Some (s ! n)"
  by (simp add: char_at_def)

lemma length_DNI_LETTERS: "length DNI_LETTERS = 23"
  by (simp add: DNI_LETTERS_def to_units_def)

lemma DNI_expected_letter:
  "char_at DNI_LETTERS (js_rem (Some (int n)) 23) = Some (DNI_LETTERS ! (n mod 23))"
proof -
  have "js_rem (Some (int n)) 23 = Some (int (n mod 23))"
    by (simp add: js_rem_nonneg zmod_int)
  then show ?thesis
    by (simp add: char_at_in_range length_DNI_LETTERS)
qed

lemma falsy_JsString: "falsy (JsString s) \<longleftrightarrow> spec_normalize s = [] \<and> s = []"
  by (cases s) simp_all

lemma isValidDNI_char:
  "isValidDNI (JsString s) =
     Inr (let t = spec_normalize s in
            spec_DNI_format t \<and> t ! 8 = DNI_LETTERS ! (dec_value (take 8 t) mod 23))"
proof (cases "spec_DNI_format (spec_normalize s)")
  case False
  then show ?thesis
    by (simp add: isValidDNI_def normalize_spec regex_DNI Let_def)
next
  case True
  define t where "t = spec_normalize s"
  from True have len: "length t = 9" and dig: "list_all is_digit (take 8 t)"
    by (simp_all add: spec_DNI_format_def t_def)
  have ne: "s \<noteq> []"
    using len by (auto simp: t_def)
  have "take 8 t \<noteq> []" using len by auto
  then have num: "parseInt (slice_str t 0 8) = Some (int (dec_value (take 8 t)))"
    using dig by (simp add: slice_str_def parseInt_digits)
  have letter: "char_at t (Some 8) = Some (t ! 8)"
    using char_at_in_range[of 8 t] len by simp
  show ?thesis
    using True ne
    by (simp add: isValidDNI_def normalize_spec regex_DNI Let_def t_def[symmetric] num letter
          DNI_expected_letter)
qed

lemma js_arith_simps:
  "js_lt (Some x) (Some y) = (x < y)"
  "js_num_eq (Some x) (Some y) = (x = y)"
  "js_add (Some x) (Some y) = Some (x + y)"
  "js_mul (Some x) (Some y) = Some (x * y)"
  by (simp_all add: js_lt_def js_num_eq_def js_add_def js_mul_def)

lemma list_all_take: "list_all P xs \<Longrightarrow> list_all P (take n xs)"
  by (auto simp: list_all_iff dest: in_set_takeD)

lemma list_all_drop: "list_all P xs \<Longrightarrow> list_all P (drop n xs)"
  by (auto simp: list_all_iff dest: in_set_dropD)

lemma isValidSpanishSSN_char:
  "isValidSpanishSSN (JsString s) =
     Inr (let t = spec_normalize s;
              province = dec_value (take 2 t);
              number = dec_value (take 8 (drop 2 t));
              checksum = dec_value (drop 10 t);
              multiplier = (if number < 10000000 then 10000000 else 100000000)
          in spec_SSN_format t \<and> 1 \<le> province \<and> province \<le> 52 \<and>
             checksum = (province * multiplier + number) mod 97)"
proof (cases "spec_SSN_format (spec_normalize s)")
  case False
  then show ?thesis
    by (simp add: isValidSpanishSSN_def normalize_spec regex_SSN Let_def)
next
  case True
  define t where "t = spec_normalize s"
  from True have len: "length t = 12" and dig: "list_all is_digit t"
    by (simp_all add: spec_SSN_format_def t_def)
  have ne: "s \<noteq> []"
    using len by (auto simp: t_def)
  have "take 2 t \<noteq> []" using len by auto
  then have p: "parseInt (slice_str t 0 2) = Some (int (dec_value (take 2 t)))"
    using dig by (simp add: slice_str_def parseInt_digits list_all_take)
  have "take 8 (drop 2 t) \<noteq> []" using len by auto
  then have n: "parseInt (slice_str t 2 10) = Some (int (dec_value (take 8 (drop 2 t))))"
    using dig by (simp add: slice_str_def parseInt_digits list_all_take list_all_drop)
  have "drop 10 t \<noteq> []" using len by auto
  then have c: "parseInt (slice_from t 10) = Some (int (dec_value (drop 10 t)))"
    using dig by (simp add: slice_from_def parseInt_digits list_all_drop)
  have rem: "js_rem (Some (int x)) 97 = Some (int (x mod 97))" for x
    by (simp add: js_rem_nonneg zmod_int)
  have m1: "int a * 10000000 + int b = int (a * 10000000 + b)" for a b by simp
  have m2: "int a * 100000000 + int b = int (a * 100000000 + b)" for a b by simp
  show ?thesis
    using True ne
    by (simp add: isValidSpanishSSN_def normalize_spec regex_SSN Let_def t_def[symmetric]
          p n c js_arith_simps m1 m2 rem del: of_nat_add of_nat_mult)
qed

subsection \<open>The checksum of the IBAN\<close>

text \<open>
  The remainder computed one character at a time is the remainder of the decimal value, and
  replacing one digit of a decimal string changes its value by a multiple of a power of
  ten that 97 does not divide.
\<close>

lemma coprime_97_10: "coprime (97::int) 10"
  by code_simp

lemma dec_value_snoc: "dec_value (xs @ [c]) = dec_value xs * 10 + digit_value c"
  by (simp add: dec_value_def)

lemma dec_value_append: "dec_value (xs @ ys) = dec_value xs * 10 ^ length ys + dec_value ys"
proof (induction ys rule: rev_induct)
  case Nil
  show ?case by (simp add: dec_value_def)
next
  case (snoc y ys)
  have "dec_value (xs @ ys @ [y]) = dec_value ((xs @ ys) @ [y])" by simp
  also have "\<dots> = dec_value (xs @ ys) * 10 + digit_value y"
    by (rule dec_value_snoc)
  also have "\<dots> = (dec_value xs * 10 ^ length ys + dec_value ys) * 10 + digit_value y"
    by (simp only: snoc.IH)
  also have "\<dots> = dec_value xs * 10 ^ length (ys @ [y]) + dec_value (ys @ [y])"
    by (simp add: dec_value_snoc algebra_simps)
  finally show ?case .
qed

lemma parseInt_digit: "is_digit c \<Longrightarrow> parseInt [c] = Some (int (digit_value c))"
  using parseInt_digits[of "[c]"] by (simp add: dec_value_def)

lemma mod_step: "(x mod m * b + y) mod m = (x * b + y) mod (m::nat)"
  by (metis mod_add_left_eq mod_mult_left_eq)

lemma mod97_snoc:
  "mod97 (ds @ [c]) = js_rem (js_add (js_mul (mod97 ds) (Some 10)) (parseInt [c])) 97"
  by (simp add: mod97_def)

lemma mod97_digits:
  "list_all is_digit ds \<Longrightarrow> mod97 ds = Some (int (dec_value ds mod 97))"
proof (induction ds rule: rev_induct)
  case Nil
  show ?case by (simp add: mod97_def dec_value_def)
next
  case (snoc c ds)
  then have ih: "mod97 ds = Some (int (dec_value ds mod 97))" and c: "is_digit c"
    by simp_all
  have "mod97 (ds @ [c]) = js_rem (Some (int (dec_value ds mod 97 * 10 + digit_value c))) 97"
    by (simp add: mod97_snoc ih parseInt_digit[OF c] js_arith_simps)
  also have "\<dots> = Some (int ((dec_value ds mod 97 * 10 + digit_value c) mod 97))"
    by (simp only: js_rem_nonneg zmod_int) simp
  also have "(dec_value ds mod 97 * 10 + digit_value c) mod 97 = dec_value (ds @ [c]) mod 97"
    unfolding dec_value_snoc by (rule mod_step)
  finally show ?case .
qed

lemma of_char_char_of_small: "n < 256 \<Longrightarrow> of_char (char_of n) = (n::nat)"
  by (simp add: of_char_of)

lemma is_digit_digit_char: "k < 10 \<Longrightarrow> is_digit (char_code (digit_char k))"
  unfolding is_digit_def digit_char_def char_code_def
  by (subst of_char_char_of_small, simp)+ simp

lemma show_nat_two_digits:
  assumes "10 \<le> n" "n < 100"
  shows "show_nat n = [digit_char (n div 10), digit_char (n mod 10)]"
proof -
  have "n div 10 < 10" using assms by simp
  then have "show_nat (n div 10) = [digit_char (n div 10)]"
    by (simp add: show_nat.simps)
  then show ?thesis
    using assms by (subst show_nat.simps) simp
qed

lemma letters_to_numbers_append:
  "letters_to_numbers (xs @ ys) = letters_to_numbers xs @ letters_to_numbers ys"
  by (simp add: letters_to_numbers_def)

lemma letters_to_numbers_digit: "is_digit c \<Longrightarrow> letters_to_numbers [c] = [c]"
  by (simp add: letters_to_numbers_def is_digit_def)

lemma letters_to_numbers_digits:
  "list_all (\<lambda>u. is_upper u \<or> is_digit u) xs \<Longrightarrow> list_all is_digit (letters_to_numbers xs)"
proof (induction xs)
  case Nil
  show ?case by (simp add: letters_to_numbers_def)
next
  case (Cons c xs)
  have "list_all is_digit (letters_to_numbers [c])"
  proof (cases "is_digit c")
    case True
    then show ?thesis by (simp add: letters_to_numbers_digit)
  next
    case False
    with Cons.prems have up: "is_upper c" by simp
    then have "10 \<le> c - 55" "c - 55 < 100"
      unfolding is_upper_def by auto
    then have "show_nat (c - 55) = [digit_char ((c - 55) div 10), digit_char ((c - 55) mod 10)]"
      by (rule show_nat_two_digits)
    moreover have "(c - 55) div 10 < 10"
      using \<open>c - 55 < 100\<close> by simp
    ultimately show ?thesis
      using up by (simp add: letters_to_numbers_def to_units_def is_upper_def is_digit_digit_char)
  qed
  moreover have "list_all is_digit (letters_to_numbers xs)"
    using Cons by simp
  ultimately show ?case
    using letters_to_numbers_append[of "[c]" xs] by simp
qed

lemma rearrange_split:
  assumes "4 \<le> length (A @ [c] @ B)"
  shows "\<exists>X Y. drop 4 (A @ [c] @ B) @ take 4 (A @ [c] @ B) = X @ [c] @ Y \<and>
               drop 4 (A @ [d] @ B) @ take 4 (A @ [d] @ B) = X @ [d] @ Y"
proof (cases "length A < 4")
  case True
  then have "4 - length A = Suc (3 - length A)" by simp
  with True have "drop 4 (A @ [c] @ B) @ take 4 (A @ [c] @ B)
      = (drop (3 - length A) B @ A) @ [c] @ take (3 - length A) B"
    and "drop 4 (A @ [d] @ B) @ take 4 (A @ [d] @ B)
      = (drop (3 - length A) B @ A) @ [d] @ take (3 - length A) B"
    by simp_all
  then show ?thesis by blast
next
  case False
  then have "drop 4 (A @ [c] @ B) @ take 4 (A @ [c] @ B) = drop 4 A @ [c] @ (B @ take 4 A)"
    and "drop 4 (A @ [d] @ B) @ take 4 (A @ [d] @ B) = drop 4 A @ [d] @ (B @ take 4 A)"
    by simp_all
  then show ?thesis by blast
qed

lemma list_all_take_drop:
  "list_all P (drop n xs) \<Longrightarrow> list_all P (take n xs) \<Longrightarrow> list_all P xs"
  using list_all_append[of P "take n xs" "drop n xs"] by simp

lemma IBAN_format_classes:
  assumes "spec_IBAN_format t"
  shows "list_all (\<lambda>u. is_upper u \<or> is_digit u) t" "4 \<le> length t"
proof -
  from assms have a: "list_all is_upper (take 2 t)" and b: "list_all is_digit (take 2 (drop 2 t))"
    and c: "list_all (\<lambda>u. is_upper u \<or> is_digit u) (drop 4 t)" and len: "13 \<le> length t"
    by (simp_all add: spec_IBAN_format_def)
  have "drop 2 (drop 2 t) = drop 4 t" by simp
  with c have "list_all (\<lambda>u. is_upper u \<or> is_digit u) (drop 2 (drop 2 t))" by simp
  moreover have "list_all (\<lambda>u. is_upper u \<or> is_digit u) (take 2 (drop 2 t))"
    using b by (simp add: list_all_iff)
  ultimately have "list_all (\<lambda>u. is_upper u \<or> is_digit u) (drop 2 t)"
    by (rule list_all_take_drop)
  moreover have "list_all (\<lambda>u. is_upper u \<or> is_digit u) (take 2 t)"
    using a by (simp add: list_all_iff)
  ultimately show "list_all (\<lambda>u. is_upper u \<or> is_digit u) t"
    by (rule list_all_take_drop)
  show "4 \<le> length t" using len by simp
qed

lemma spec_normalize_append: "spec_normalize (xs @ ys) = spec_normalize xs @ spec_normalize ys"
  by (induction xs) simp_all

lemma spec_normalize_digit: "is_digit (char_code c) \<Longrightarrow> spec_normalize [c] = [char_code c]"
  by (auto simp: spec_strippable_def spec_upper_eq upper_char_def is_digit_def)

lemma spec_normalize_update:
  assumes "i < length s" "is_digit (char_code (s ! i))" "is_digit (char_code d)"
  shows "\<exists>A B. spec_normalize s = A @ [char_code (s ! i)] @ B \<and>
               spec_normalize (s[i := d]) = A @ [char_code d] @ B"
proof -
  have "s = take i s @ [s ! i] @ drop (Suc i) s"
    using assms(1) by (simp add: id_take_nth_drop)
  then have "spec_normalize s
      = spec_normalize (take i s) @ spec_normalize [s ! i] @ spec_normalize (drop (Suc i) s)"
    by (metis spec_normalize_append)
  then have a: "spec_normalize s
      = spec_normalize (take i s) @ [char_code (s ! i)] @ spec_normalize (drop (Suc i) s)"
    by (simp only: spec_normalize_digit[OF assms(2)])
  have "s[i := d] = take i s @ [d] @ drop (Suc i) s"
    using assms(1) by (simp add: upd_conv_take_nth_drop)
  then have b: "spec_normalize (s[i := d])
      = spec_normalize (take i s) @ [char_code d] @ spec_normalize (drop (Suc i) s)"
    by (simp only: spec_normalize_append spec_normalize_digit[OF assms(3)])
  from a b show ?thesis by blast
qed

lemma digit_value_less: "is_digit c \<Longrightarrow> digit_value c < 10"
  unfolding is_digit_def digit_value_def by auto

lemma digit_value_inj: "is_digit c \<Longrightarrow> is_digit d \<Longrightarrow> digit_value c = digit_value d \<Longrightarrow> c = d"
  unfolding is_digit_def digit_value_def by linarith

lemma single_digit_mod97:
  fixes a b P Q k :: nat
  assumes "a < 10" "b < 10"
    and "(P + a * 10 ^ k + Q) mod 97 = (P + b * 10 ^ k + Q) mod 97"
  shows "a = b"
proof -
  have "int ((P + a * 10 ^ k + Q) mod 97) = int ((P + b * 10 ^ k + Q) mod 97)"
    using assms(3) by simp
  then have "(int P + int a * 10 ^ k + int Q) mod 97 = (int P + int b * 10 ^ k + int Q) mod 97"
    by (simp add: zmod_int)
  then have "97 dvd (int P + int a * 10 ^ k + int Q) - (int P + int b * 10 ^ k + int Q)"
    by (simp only: mod_eq_dvd_iff)
  moreover have "(int P + int a * 10 ^ k + int Q) - (int P + int b * 10 ^ k + int Q)
      = (int a - int b) * 10 ^ k"
    by (simp add: algebra_simps)
  ultimately have "97 dvd (int a - int b) * 10 ^ k"
    by simp
  moreover have "coprime (97::int) (10 ^ k)"
    using coprime_97_10 by (simp add: coprime_power_right_iff)
  ultimately have d: "97 dvd (int a - int b)"
    by (simp add: coprime_dvd_mult_left_iff)
  have "int a - int b = 0"
  proof (rule ccontr)
    assume "int a - int b \<noteq> 0"
    then have "\<bar>97::int\<bar> \<le> \<bar>int a - int b\<bar>"
      using d by (rule dvd_imp_le_int)
    with assms(1,2) show False by simp
  qed
  then show ?thesis by simp
qed

lemma IBAN_numeric_digits:
  assumes "spec_IBAN_format t"
  shows "list_all is_digit (letters_to_numbers (drop 4 t @ take 4 t))"
proof -
  have "list_all (\<lambda>u. is_upper u \<or> is_digit u) t"
    using IBAN_format_classes[OF assms] by simp
  then have "list_all (\<lambda>u. is_upper u \<or> is_digit u) (drop 4 t @ take 4 t)"
    by (simp add: list_all_take list_all_drop)
  then show ?thesis
    by (rule letters_to_numbers_digits)
qed

lemma isValidIBAN_char:
  "isValidIBAN (JsString s) =
     Inr (let t = spec_normalize s in
            spec_IBAN_format t \<and>
            dec_value (letters_to_numbers (drop 4 t @ take 4 t)) mod 97 = 1)"
proof (cases "spec_IBAN_format (spec_normalize s)")
  case False
  then show ?thesis
    by (simp add: isValidIBAN_def normalize_spec regex_IBAN Let_def)
next
  case True
  define t where "t = spec_normalize s"
  have "4 \<le> length t"
    using IBAN_format_classes[OF True] by (simp add: t_def)
  then have ne: "s \<noteq> []"
    by (auto simp: t_def)
  have "mod97 (letters_to_numbers (drop 4 t @ take 4 t))
      = Some (int (dec_value (letters_to_numbers (drop 4 t @ take 4 t)) mod 97))"
    using IBAN_numeric_digits[OF True] by (simp add: t_def mod97_digits)
  then show ?thesis
    using True ne
    by (simp add: isValidIBAN_def normalize_spec regex_IBAN Let_def t_def[symmetric] slice_str_def
          slice_from_def js_arith_simps)
qed

lemma IBAN_single_digit:
  assumes valid: "isValidIBAN (JsString s) = Inr True"
    and i: "i < length s" and c: "is_digit (char_code (s ! i))" and d: "is_digit (char_code d)"
    and neq: "d \<noteq> s ! i"
  shows "isValidIBAN (JsString (s[i := d])) = Inr False"
proof (rule ccontr)
  assume "isValidIBAN (JsString (s[i := d])) \<noteq> Inr False"
  then have valid': "isValidIBAN (JsString (s[i := d])) = Inr True"
    by (simp add: isValidIBAN_char)
  obtain A B where t: "spec_normalize s = A @ [char_code (s ! i)] @ B"
    and t': "spec_normalize (s[i := d]) = A @ [char_code d] @ B"
    using spec_normalize_update[OF i c d] by blast
  let ?c = "char_code (s ! i)" and ?d = "char_code d"
  from valid have re: "spec_IBAN_format (A @ [?c] @ B)"
    and v: "dec_value (letters_to_numbers (drop 4 (A @ [?c] @ B) @ take 4 (A @ [?c] @ B))) mod 97 = 1"
    unfolding isValidIBAN_char Let_def t by simp_all
  from valid' have v': "dec_value (letters_to_numbers (drop 4 (A @ [?d] @ B) @ take 4 (A @ [?d] @ B))) mod 97 = 1"
    unfolding isValidIBAN_char Let_def t' by simp_all
  have "4 \<le> length (A @ [?c] @ B)"
    using IBAN_format_classes[OF re] by simp
  then obtain X Y where X: "drop 4 (A @ [?c] @ B) @ take 4 (A @ [?c] @ B) = X @ [?c] @ Y"
    and X': "drop 4 (A @ [?d] @ B) @ take 4 (A @ [?d] @ B) = X @ [?d] @ Y"
    using rearrange_split[of A ?c B ?d] by blast
  define LX where "LX = letters_to_numbers X"
  define LY where "LY = letters_to_numbers Y"
  have n: "letters_to_numbers (X @ [?c] @ Y) = LX @ [?c] @ LY"
    by (simp only: letters_to_numbers_append letters_to_numbers_digit[OF c] LX_def LY_def)
  have n': "letters_to_numbers (X @ [?d] @ Y) = LX @ [?d] @ LY"
    by (simp only: letters_to_numbers_append letters_to_numbers_digit[OF d] LX_def LY_def)
  have val: "dec_value (LX @ [e] @ LY)
      = dec_value LX * 10 ^ Suc (length LY) + digit_value e * 10 ^ length LY + dec_value LY" for e
  proof -
    have "dec_value (LX @ [e] @ LY) = dec_value ((LX @ [e]) @ LY)" by simp
    also have "\<dots> = dec_value (LX @ [e]) * 10 ^ length LY + dec_value LY"
      by (rule dec_value_append)
    finally show ?thesis
      by (simp add: dec_value_snoc algebra_simps)
  qed
  from v v' have "dec_value (LX @ [?c] @ LY) mod 97 = dec_value (LX @ [?d] @ LY) mod 97"
    unfolding X X' n n' by simp
  then have "digit_value ?c = digit_value ?d"
    unfolding val
    by (rule single_digit_mod97[OF digit_value_less[OF c] digit_value_less[OF d]])
  then have "?c = ?d"
    by (rule digit_value_inj[OF c d])
  then have "s ! i = d"
    by (simp add: char_code_def)
  with neq show False by simp
qed

subsection \<open>The claims on the validators\<close>

lemma char_code_digit_char: "k < 10 \<Longrightarrow> char_code (digit_char k) = 48 + k"
  unfolding digit_char_def char_code_def by (simp add: of_char_char_of_small)

lemma digit_char_simps:
  "digit_char 0 = CHR ''0''" "digit_char 1 = CHR ''1''" "digit_char 2 = CHR ''2''"
  "digit_char 3 = CHR ''3''" "digit_char 4 = CHR ''4''" "digit_char 5 = CHR ''5''"
  "digit_char 6 = CHR ''6''" "digit_char 7 = CHR ''7''" "digit_char 8 = CHR ''8''"
  "digit_char 9 = CHR ''9''" "digit_char (Suc 0) = CHR ''1''"
  by (simp_all add: digit_char_def char_of_eq_iff take_bit_eq_mod)

lemmas string_eval =
  spec_strippable_def spec_upper_eq upper_char_def char_code_def to_units_def is_digit_def
  is_upper_def dec_value_def digit_value_def Let_def

lemma normalize_examples:
  "spec_normalize '' 1234-5678 z'' = to_units ''12345678Z''"
  "spec_normalize (''12345678'' @ [CHR 0xA0, CHR 0x09] @ ''z'') = to_units ''12345678Z''"
  "spec_normalize ''12345678Z'' = to_units ''12345678Z''"
  "spec_normalize ''12345678A'' = to_units ''12345678A''"
  by (simp_all add: string_eval)

text \<open>
  Claim C7. On every string \<^verbatim>\<open>isValidDNI\<close> returns a boolean, and it returns \<^verbatim>\<open>true\<close> exactly
  when the string, with its hyphens and white space removed and its letters put in upper
  case, is eight digits followed by a capital letter that is the character of
  \<^verbatim>\<open>TRWAGMYFPDXBNJZSQVHLCKE\<close> at the index given by the eight-digit number modulo 23. So
  \<^verbatim>\<open>12345678Z\<close> is accepted and \<^verbatim>\<open>12345678A\<close> is rejected; \<^verbatim>\<open>" 1234-5678 z"\<close> is accepted, and so
  is \<^verbatim>\<open>12345678\<close> followed by a no-break space, a tab and \<^verbatim>\<open>z\<close>.
\<close>

theorem isValidDNI_spec:
  "isValidDNI (JsString s) =
     Inr (let t = spec_normalize s in
            length t = 9 \<and> list_all is_digit (take 8 t) \<and> is_upper (t ! 8) \<and>
            t ! 8 = to_units ''TRWAGMYFPDXBNJZSQVHLCKE'' ! (dec_value (take 8 t) mod 23))
   \<and> isValidDNI (JsString ''12345678Z'') = Inr True
   \<and> isValidDNI (JsString ''12345678A'') = Inr False
   \<and> isValidDNI (JsString '' 1234-5678 z'') = Inr True
   \<and> isValidDNI (JsString (''12345678'' @ [CHR 0xA0, CHR 0x09] @ ''z'')) = Inr True"
proof -
  have general: "isValidDNI (JsString s) =
     Inr (let t = spec_normalize s in
            length t = 9 \<and> list_all is_digit (take 8 t) \<and> is_upper (t ! 8) \<and>
            t ! 8 = to_units ''TRWAGMYFPDXBNJZSQVHLCKE'' ! (dec_value (take 8 t) mod 23))" for s
    by (simp add: isValidDNI_char spec_DNI_format_def DNI_LETTERS_def Let_def)
  have "isValidDNI (JsString ''12345678Z'') = Inr True"
    unfolding general normalize_examples by (simp add: string_eval)
  moreover have "isValidDNI (JsString ''12345678A'') = Inr False"
    unfolding general normalize_examples by (simp add: string_eval)
  moreover have "isValidDNI (JsString '' 1234-5678 z'') = Inr True"
    unfolding general normalize_examples by (simp add: string_eval)
  moreover have "isValidDNI (JsString (''12345678'' @ [CHR 0xA0, CHR 0x09] @ ''z'')) = Inr True"
    unfolding general normalize_examples by (simp add: string_eval)
  ultimately show ?thesis
    using general[of s] by simp
qed

text \<open>
  Claim C9. On every string \<^verbatim>\<open>isValidSpanishSSN\<close> returns a boolean, and it returns \<^verbatim>\<open>true\<close>
  exactly when the normalized string is twelve digits, the province (the first two digits)
  is between 1 and 52, and the checksum (the last two digits) is
  \<open>(province * multiplier + number) mod 97\<close>, the multiplier being 10000000 when the
  eight-digit number is below 10000000 and 100000000 otherwise. A province of 0 or 53 is
  rejected whatever the checksum. \<^verbatim>\<open>281234567840\<close> is accepted, also written
  \<^verbatim>\<open>28 12345678-40\<close>; \<^verbatim>\<open>281234567841\<close> is rejected; \<^verbatim>\<open>010000000177\<close>, whose number is below
  10000000, is accepted.
\<close>

theorem isValidSpanishSSN_spec:
  "isValidSpanishSSN (JsString s) =
     Inr (let t = spec_normalize s;
              province = dec_value (take 2 t);
              number = dec_value (take 8 (drop 2 t));
              checksum = dec_value (drop 10 t);
              multiplier = (if number < 10000000 then 10000000 else 100000000)
          in length t = 12 \<and> list_all is_digit t \<and> 1 \<le> province \<and> province \<le> 52 \<and>
             checksum = (province * multiplier + number) mod 97)
   \<and> (dec_value (take 2 (spec_normalize s)) = 0 \<or> dec_value (take 2 (spec_normalize s)) = 53
        \<longrightarrow> isValidSpanishSSN (JsString s) = Inr False)
   \<and> isValidSpanishSSN (JsString ''281234567840'') = Inr True
   \<and> isValidSpanishSSN (JsString ''28 12345678-40'') = Inr True
   \<and> isValidSpanishSSN (JsString ''281234567841'') = Inr False
   \<and> isValidSpanishSSN (JsString ''010000000177'') = Inr True"
proof -
  have general: "isValidSpanishSSN (JsString s) =
     Inr (let t = spec_normalize s;
              province = dec_value (take 2 t);
              number = dec_value (take 8 (drop 2 t));
              checksum = dec_value (drop 10 t);
              multiplier = (if number < 10000000 then 10000000 else 100000000)
          in length t = 12 \<and> list_all is_digit t \<and> 1 \<le> province \<and> province \<le> 52 \<and>
             checksum = (province * multiplier + number) mod 97)" for s
    by (simp add: isValidSpanishSSN_char spec_SSN_format_def Let_def)
  have n: "spec_normalize ''28 12345678-40'' = to_units ''281234567840''"
    "spec_normalize ''281234567840'' = to_units ''281234567840''"
    "spec_normalize ''281234567841'' = to_units ''281234567841''"
    "spec_normalize ''010000000177'' = to_units ''010000000177''"
    by (simp_all add: string_eval)
  have "isValidSpanishSSN (JsString ''281234567840'') = Inr True"
    unfolding general n by (simp add: string_eval)
  moreover have "isValidSpanishSSN (JsString ''28 12345678-40'') = Inr True"
    unfolding general n by (simp add: string_eval)
  moreover have "isValidSpanishSSN (JsString ''281234567841'') = Inr False"
    unfolding general n by (simp add: string_eval)
  moreover have "isValidSpanishSSN (JsString ''010000000177'') = Inr True"
    unfolding general n by (simp add: string_eval)
  ultimately show ?thesis
    using general[of s] by (simp add: Let_def)
qed

text \<open>
  Two inputs whose checksum agrees with the formula and whose province is out of range:
  \<open>(0 * 100000000 + 12345678) mod 97 = 3\<close> and \<open>(53 * 100000000 + 12345678) mod 97 = 28\<close>.
\<close>

theorem isValidSpanishSSN_spec_witness:
  "isValidSpanishSSN (JsString ''00-12345678 03'') = Inr False
   \<and> isValidSpanishSSN (JsString ''531234567828'') = Inr False"
proof -
  have a: "dec_value (take 2 (spec_normalize ''00-12345678 03'')) = 0"
    by (simp add: string_eval)
  have b: "dec_value (take 2 (spec_normalize ''531234567828'')) = 53"
    by (simp add: string_eval)
  from a have "isValidSpanishSSN (JsString ''00-12345678 03'') = Inr False"
    using isValidSpanishSSN_spec[of "''00-12345678 03''", THEN conjunct2, THEN conjunct1] by blast
  moreover from b have "isValidSpanishSSN (JsString ''531234567828'') = Inr False"
    using isValidSpanishSSN_spec[of "''531234567828''", THEN conjunct2, THEN conjunct1] by blast
  ultimately show ?thesis by blast
qed

text \<open>
  No validator raises: after the guard the argument is a string that is not empty, and
  \<^verbatim>\<open>normalize\<close> raises on \<^verbatim>\<open>null\<close> and \<^verbatim>\<open>undefined\<close> only.
\<close>

lemma isValidNIE_total: "\<exists>b. isValidNIE input = Inr b"
proof (cases "falsy input")
  case True
  then have "isValidNIE input = Inr False" by (simp add: isValidNIE_def)
  then show ?thesis by blast
next
  case False
  then obtain s where s: "input = JsString s" by (cases input) auto
  show ?thesis
  proof (cases "regex_test NIE_PATTERN (spec_normalize s)")
    case True
    with False s show ?thesis
      by (simp add: isValidNIE_def normalize_spec Let_def)
  next
    case no_match: False
    with False s show ?thesis
      by (auto simp: isValidNIE_def normalize_spec)
  qed
qed

lemma validator_total:
  "\<exists>b. isValidDNI input = Inr b" "\<exists>b. isValidNIE input = Inr b"
  "\<exists>b. isValidSpanishSSN input = Inr b" "\<exists>b. isValidIBAN input = Inr b"
proof -
  show "\<exists>b. isValidDNI input = Inr b"
    by (cases input) (auto simp: isValidDNI_char, auto simp: isValidDNI_def)
  show "\<exists>b. isValidNIE input = Inr b"
    by (rule isValidNIE_total)
  show "\<exists>b. isValidSpanishSSN input = Inr b"
    by (cases input) (auto simp: isValidSpanishSSN_char, auto simp: isValidSpanishSSN_def)
  show "\<exists>b. isValidIBAN input = Inr b"
    by (cases input) (auto simp: isValidIBAN_char, auto simp: isValidIBAN_def)
qed

text \<open>
  Claim C10. On every input, \<^verbatim>\<open>null\<close> and \<^verbatim>\<open>undefined\<close> included, each of the four validators
  returns a boolean and raises nothing. On \<^verbatim>\<open>null\<close>, on \<^verbatim>\<open>undefined\<close> and on the empty string each
  returns \<^verbatim>\<open>false\<close>, and each returns \<^verbatim>\<open>false\<close> on every string whose normalized form fails its
  format.
\<close>

theorem validators_never_fail:
  "((\<exists>b. isValidDNI input = Inr b) \<and> (\<exists>b. isValidNIE input = Inr b)
     \<and> (\<exists>b. isValidSpanishSSN input = Inr b) \<and> (\<exists>b. isValidIBAN input = Inr b))
   \<and> (isValidDNI JsNull = Inr False \<and> isValidDNI JsUndefined = Inr False
        \<and> isValidDNI (JsString []) = Inr False)
   \<and> (isValidNIE JsNull = Inr False \<and> isValidNIE JsUndefined = Inr False
        \<and> isValidNIE (JsString []) = Inr False)
   \<and> (isValidSpanishSSN JsNull = Inr False \<and> isValidSpanishSSN JsUndefined = Inr False
        \<and> isValidSpanishSSN (JsString []) = Inr False)
   \<and> (isValidIBAN JsNull = Inr False \<and> isValidIBAN JsUndefined = Inr False
        \<and> isValidIBAN (JsString []) = Inr False)
   \<and> (\<not> spec_DNI_format (spec_normalize s) \<longrightarrow> isValidDNI (JsString s) = Inr False)
   \<and> (\<not> spec_NIE_format (spec_normalize s) \<longrightarrow> isValidNIE (JsString s) = Inr False)
   \<and> (\<not> spec_SSN_format (spec_normalize s) \<longrightarrow> isValidSpanishSSN (JsString s) = Inr False)
   \<and> (\<not> spec_IBAN_format (spec_normalize s) \<longrightarrow> isValidIBAN (JsString s) = Inr False)"
proof -
  have guards: "isValidDNI x = Inr False" "isValidNIE x = Inr False"
    "isValidSpanishSSN x = Inr False" "isValidIBAN x = Inr False" if "falsy x" for x
    using that by (simp_all add: isValidDNI_def isValidNIE_def isValidSpanishSSN_def isValidIBAN_def)
  have formats:
    "\<not> spec_DNI_format (spec_normalize s) \<longrightarrow> isValidDNI (JsString s) = Inr False"
    "\<not> spec_NIE_format (spec_normalize s) \<longrightarrow> isValidNIE (JsString s) = Inr False"
    "\<not> spec_SSN_format (spec_normalize s) \<longrightarrow> isValidSpanishSSN (JsString s) = Inr False"
    "\<not> spec_IBAN_format (spec_normalize s) \<longrightarrow> isValidIBAN (JsString s) = Inr False"
    by (simp_all add: isValidDNI_char isValidSpanishSSN_char isValidIBAN_char Let_def)
       (simp add: isValidNIE_def normalize_spec regex_NIE)
  show ?thesis
    using validator_total[of input] formats by (simp add: guards)
qed

text \<open>The string \<^verbatim>\<open>1234-X\<close> fails the four formats.\<close>

theorem validators_never_fail_witness:
  "isValidDNI (JsString ''1234-X'') = Inr False \<and> isValidNIE (JsString ''1234-X'') = Inr False
   \<and> isValidSpanishSSN (JsString ''1234-X'') = Inr False \<and> isValidIBAN (JsString ''1234-X'') = Inr False"
proof -
  have n: "spec_normalize ''1234-X'' = to_units ''1234X''"
    by (simp add: string_eval)
  have "\<not> spec_DNI_format (spec_normalize ''1234-X'')"
    unfolding n by (simp add: spec_DNI_format_def to_units_def)
  moreover have "\<not> spec_NIE_format (spec_normalize ''1234-X'')"
    unfolding n by (simp add: spec_NIE_format_def to_units_def)
  moreover have "\<not> spec_SSN_format (spec_normalize ''1234-X'')"
    unfolding n by (simp add: spec_SSN_format_def to_units_def)
  moreover have "\<not> spec_IBAN_format (spec_normalize ''1234-X'')"
    unfolding n by (simp add: spec_IBAN_format_def to_units_def)
  ultimately show ?thesis
    using validators_never_fail[of "JsString ''1234-X''" "''1234-X''"] by blast
qed

text \<open>
  Claim C8. An accepted IBAN leaves remainder 1 modulo 97 in its rearranged numeric form,
  and replacing any one digit character of the input by a different digit gives an input
  that is rejected.
\<close>

theorem isValidIBAN_single_digit:
  assumes "isValidIBAN (JsString s) = Inr True"
  shows "dec_value (letters_to_numbers (drop 4 (spec_normalize s) @ take 4 (spec_normalize s))) mod 97 = 1
    \<and> (\<forall>i d. i < length s \<and> is_digit (char_code (s ! i)) \<and> is_digit (char_code d) \<and> d \<noteq> s ! i
          \<longrightarrow> isValidIBAN (JsString (s[i := d])) = Inr False)"
  using assms IBAN_single_digit[OF assms] by (simp add: isValidIBAN_char Let_def)

text \<open>
  The Norwegian IBAN \<^verbatim>\<open>NO9386011117947\<close>, written \<^verbatim>\<open>no93 8601-1117 947\<close>, is accepted; with its
  last digit changed from 7 to 8 it is rejected.
\<close>

theorem isValidIBAN_single_digit_witness:
  "isValidIBAN (JsString ''no93 8601-1117 947'') = Inr True
   \<and> isValidIBAN (JsString ''no93 8601-1117 948'') = Inr False"
proof -
  have n: "spec_normalize ''no93 8601-1117 947'' = to_units ''NO9386011117947''"
    by (simp add: string_eval)
  have sn: "show_nat 23 = ''23''" "show_nat 24 = ''24''"
    by (simp_all add: show_nat.simps digit_char_simps)
  have l: "letters_to_numbers [56, 54, 48, 49, 49, 49, 49, 55, 57, 52, 55, 78, 79, 57, 51]
      = [56, 54, 48, 49, 49, 49, 49, 55, 57, 52, 55, 50, 51, 50, 52, 57, 51]"
    by (simp add: letters_to_numbers_def sn to_units_def char_code_def)
  have f: "spec_IBAN_format (to_units ''NO9386011117947'')"
    by (simp add: spec_IBAN_format_def to_units_def char_code_def is_upper_def is_digit_def)
  have v: "isValidIBAN (JsString ''no93 8601-1117 947'') = Inr True"
    unfolding isValidIBAN_char Let_def n using f
    by (simp add: to_units_def char_code_def l dec_value_def digit_value_def)
  have "17 < length ''no93 8601-1117 947'' \<and> is_digit (char_code (''no93 8601-1117 947'' ! 17))
      \<and> is_digit (char_code CHR ''8'') \<and> CHR ''8'' \<noteq> ''no93 8601-1117 947'' ! 17"
    by (simp add: is_digit_def char_code_def)
  with isValidIBAN_single_digit[OF v]
  have "isValidIBAN (JsString (''no93 8601-1117 947''[17 := CHR ''8''])) = Inr False"
    by blast
  moreover have "''no93 8601-1117 947''[17 := CHR ''8''] = ''no93 8601-1117 948''"
    by (simp add: eval_nat_numeral)
  ultimately show ?thesis
    using v by simp
qed

section \<open>Properties of the structural comparison\<close>

subsection \<open>The branches of \<^verbatim>\<open>diff\<close>\<close>

lemma diff_both_nullish: "nullish a \<Longrightarrow> nullish b \<Longrightarrow> diff a b n = None"
  by (subst diff.simps) simp

lemma diff_typeof_differs:
  assumes "\<not> (nullish a \<and> nullish b)" "typeof a \<noteq> typeof b"
  shows "diff a b n =
    Some (Single n ((change (''Type changed from '' @ type_name (typeof a) @ '' to '' @ type_name (typeof b)))
      \<lparr>oldValue := Some (serializeValue a), newValue := Some (serializeValue b)\<rparr>))"
  using assms by (subst diff.simps) (simp add: Let_def)

lemma diff_old_nullish:
  assumes "nullish a" "\<not> nullish b" "typeof a = typeof b"
  shows "diff a b n =
    Some (Single n ((change ''Property added'')\<lparr>newValue := Some (serializeValue b)\<rparr>))"
  using assms by (subst diff.simps) (simp add: Let_def)

lemma diff_new_nullish:
  assumes "\<not> nullish a" "nullish b" "typeof a = typeof b"
  shows "diff a b n =
    Some (Single n ((change ''Property removed'')\<lparr>oldValue := Some (serializeValue a)\<rparr>))"
  using assms by (subst diff.simps) (simp add: Let_def)

lemma diff_arrays_unfold:
  "diff (Arr xs) (Arr ys) n =
     (let addedItems = filter (\<lambda>x. serializeValue x \<notin> set (map serializeValue xs)) ys;
          removedItems = filter (\<lambda>x. serializeValue x \<notin> set (map serializeValue ys)) xs
      in if addedItems = [] \<and> removedItems = [] then None
         else Some (Single n ((change ''Array modified'')
              \<lparr>removed := (if removedItems \<noteq> [] then Some (serializeValue (Arr removedItems)) else None),
               added := (if addedItems \<noteq> [] then Some (serializeValue (Arr addedItems)) else None)\<rparr>)))"
  by (subst diff.simps) (simp add: Let_def)

lemma diff_objects_unfold:
  assumes "typeof a = TObject" "typeof b = TObject" "\<not> nullish a" "\<not> nullish b"
    "\<not> (isArray a \<and> isArray b)"
  shows "diff a b n =
     (if object_differences (entries a) (entries b) \<noteq> []
      then Some (Multiple n (object_differences (entries a) (entries b))) else None)"
proof -
  have na: "(isArray a \<and> isArray b) = False"
    using assms(5) by simp
  show ?thesis
    using assms(1-4) by (subst diff.simps) (simp add: Let_def object_differences_def na)
qed

lemma diff_primitives_unfold:
  assumes "typeof a = typeof b" "typeof a \<noteq> TObject" "\<not> nullish a" "\<not> nullish b"
  shows "diff a b n =
     (if \<not> strict_equals a b
      then Some (Single n ((change ''Value changed'')\<lparr>oldValue := Some a, newValue := Some b\<rparr>))
      else None)"
proof -
  have "\<not> isArray a"
    using assms(2) by (cases a) simp_all
  then show ?thesis
    using assms by (subst diff.simps) (simp add: Let_def)
qed

subsection \<open>When no difference is reported\<close>

lemma size_get_entries:
  assumes "typeof a = TObject" "\<not> nullish a"
  shows "size (get (entries a) k) < size a"
proof (cases "map_of (entries a) k")
  case None
  then have "get (entries a) k = Undefined"
    by (simp add: get_def)
  moreover have "0 < size a"
    using assms by (cases a) simp_all
  ultimately show ?thesis by simp
next
  case (Some v)
  then have mem: "(k, v) \<in> set (entries a)"
    by (rule map_of_SomeD)
  have "size v < size a"
  proof (cases a)
    case (Arr xs)
    with mem have "v \<in> set xs"
      by (auto dest: set_zip_rightD)
    then have "size v \<le> size_list size xs"
      by (simp add: size_list_estimation')
    with Arr show ?thesis by simp
  next
    case (Obj kvs)
    with mem have "(k, v) \<in> set kvs" by simp
    then have "size_prod (\<lambda>x. 0) size (k, v) \<le> size_list (size_prod (\<lambda>x. 0) size) kvs"
      by (simp add: size_list_estimation')
    with Obj show ?thesis by simp
  qed (use mem in simp_all)
  with Some show ?thesis by (simp add: get_def)
qed

lemma non_null_Nil_iff: "non_null cs = [] \<longleftrightarrow> (\<forall>c \<in> set cs. c = None)"
  by (induction cs rule: non_null.induct) simp_all

lemma object_differences_Nil_iff:
  "object_differences oldObj newObj = [] \<longleftrightarrow>
     set (map fst newObj) \<subseteq> set (map fst oldObj) \<and>
     set (map fst oldObj) \<subseteq> set (map fst newObj) \<and>
     (\<forall>k \<in> set (map fst oldObj) \<inter> set (map fst newObj).
        diff (get oldObj k) (get newObj k) k = None)"
  unfolding object_differences_def Let_def
  by (auto simp: non_null_Nil_iff filter_empty_conv)

lemma diff_arrays_None_iff:
  "diff (Arr xs) (Arr ys) n = None \<longleftrightarrow>
     serializeValue ` set ys \<subseteq> serializeValue ` set xs \<and>
     serializeValue ` set xs \<subseteq> serializeValue ` set ys"
  unfolding diff_arrays_unfold Let_def
  by (auto simp: filter_empty_conv)

lemma strict_equals_sym: "strict_equals a b = strict_equals b a"
  by (cases a; cases b) auto

lemma isArray_iff: "isArray a \<longleftrightarrow> (\<exists>xs. a = Arr xs)"
  by (cases a) simp_all

lemma diff_None_sym: "(diff a b n = None) = (diff b a m = None)"
proof (induction a arbitrary: b n m rule: measure_induct_rule[where f = size])
  case (less a)
  show ?case
  proof (cases "nullish a \<or> nullish b \<or> typeof a \<noteq> typeof b")
    case True
    then consider "nullish a \<and> nullish b" | "\<not> (nullish a \<and> nullish b)" "typeof a \<noteq> typeof b"
      | "nullish a" "\<not> nullish b" "typeof a = typeof b"
      | "\<not> nullish a" "nullish b" "typeof a = typeof b"
      by blast
    then show ?thesis
    proof cases
      case 1
      then show ?thesis by (simp add: diff_both_nullish)
    next
      case 2
      then have "\<not> (nullish b \<and> nullish a)" "typeof b \<noteq> typeof a" by auto
      with 2 show ?thesis by (simp add: diff_typeof_differs)
    next
      case 3
      then show ?thesis by (simp add: diff_old_nullish diff_new_nullish)
    next
      case 4
      then show ?thesis by (simp add: diff_old_nullish diff_new_nullish)
    qed
  next
    case False
    then have nn: "\<not> nullish a" "\<not> nullish b" and ty: "typeof a = typeof b" by auto
    show ?thesis
    proof (cases "typeof a = TObject")
      case False
      with nn ty show ?thesis
        by (simp add: diff_primitives_unfold strict_equals_sym[of a b])
    next
      case obj: True
      show ?thesis
      proof (cases "isArray a \<and> isArray b")
        case True
        then obtain xs ys where "a = Arr xs" "b = Arr ys"
          by (auto simp: isArray_iff)
        then show ?thesis
          by (auto simp: diff_arrays_None_iff)
      next
        case False
        have ih: "(diff (get (entries a) k) (get (entries b) k) k = None)
            = (diff (get (entries b) k) (get (entries a) k) k = None)" for k
          using less.IH[OF size_get_entries[OF obj nn(1)]] by blast
        have "(diff a b n = None) = (object_differences (entries a) (entries b) = [])"
          using obj ty nn False by (simp add: diff_objects_unfold)
        moreover have "(diff b a m = None) = (object_differences (entries b) (entries a) = [])"
          using obj ty nn False by (simp add: diff_objects_unfold conj_commute)
        ultimately show ?thesis
          unfolding object_differences_Nil_iff using ih by (auto simp: Int_commute)
      qed
    qed
  qed
qed

lemma get_member:
  assumes "k \<in> fst ` set p"
  shows "(k, get p k) \<in> set p"
proof -
  from assms obtain v where "map_of p k = Some v"
    by (cases "map_of p k") (auto simp: map_of_eq_None_iff)
  then show ?thesis
    by (auto simp: get_def dest: map_of_SomeD)
qed

lemma diff_same_value:
  "no_NaN_outside_arrays x \<Longrightarrow> diff x x n = None"
proof (induction x arbitrary: n)
  case (Arr xs)
  show ?case by (simp add: diff_arrays_None_iff)
next
  case (Obj p)
  have "diff (get p k) (get p k) k = None" if "k \<in> fst ` set p" for k
  proof -
    have mem: "(k, get p k) \<in> set p"
      using that by (rule get_member)
    with Obj.prems have "no_NaN_outside_arrays (get p k)"
      by (auto simp: list_all_iff)
    with mem show ?thesis
      by (auto intro: Obj.IH)
  qed
  then have "object_differences p p = []"
    by (simp add: object_differences_Nil_iff)
  then show ?case
    by (simp add: diff_objects_unfold)
qed (simp_all add: diff_both_nullish diff_primitives_unfold)

lemma diff_deep_equal:
  "no_NaN_outside_arrays a \<Longrightarrow> deep_equal_by_serialization a b \<Longrightarrow> diff a b n = None"
proof (induction a arbitrary: b n)
  case (Arr xs)
  show ?case
  proof (cases b)
    case b: (Arr ys)
    with Arr.prems have "set (map serializeValue xs) = set (map serializeValue ys)"
      by simp
    with b show ?thesis
      by (simp add: diff_arrays_None_iff)
  qed (use Arr.prems in simp_all)
next
  case (Obj p)
  show ?case
  proof (cases b)
    case b: (Obj q)
    with Obj.prems have keys: "set (map fst p) = set (map fst q)"
      and rel: "list_all (\<lambda>(k, v). deep_equal_by_serialization v (get q k)) p"
      by simp_all
    have "diff (get p k) (get q k) k = None" if "k \<in> fst ` set p" for k
    proof -
      have mem: "(k, get p k) \<in> set p"
        using that by (rule get_member)
      with Obj.prems(1) have "no_NaN_outside_arrays (get p k)"
        by (auto simp: list_all_iff)
      moreover from mem rel have "deep_equal_by_serialization (get p k) (get q k)"
        by (auto simp: list_all_iff)
      ultimately show ?thesis
        using mem by (auto intro: Obj.IH)
    qed
    with keys have "object_differences p q = []"
      by (simp add: object_differences_Nil_iff)
    with b show ?thesis
      by (simp add: diff_objects_unfold)
  qed (use Obj.prems in simp_all)
qed (auto simp: diff_same_value)

lemma deep_equal_by_serialization_deep_equal:
  "deep_equal_by_serialization a b \<Longrightarrow> deep_equal a b"
proof (induction a arbitrary: b)
  case (Arr xs)
  then show ?case by (cases b) simp_all
next
  case (Obj p)
  show ?case
  proof (cases b)
    case b: (Obj q)
    with Obj.prems have keys: "set (map fst p) = set (map fst q)"
      and rel: "list_all (\<lambda>(k, v). deep_equal_by_serialization v (get q k)) p"
      by simp_all
    have "deep_equal v (get q k)" if "(k, v) \<in> set p" for k v
      using that rel by (auto simp: list_all_iff intro: Obj.IH)
    then have "list_all (\<lambda>(k, v). deep_equal v (get q k)) p"
      by (auto simp: list_all_iff)
    with keys b show ?thesis by simp
  qed (use Obj.prems in simp_all)
qed auto

lemmas json_eval =
  serializeValue_def show_int_def show_nat.simps digit_char_simps quote_def quote_char_def
  char_code_def Let_def

lemma diff_primitive_values:
  "diff (Num (Finite i)) (Num (Finite j)) n =
     (if i = j then None
      else Some (Single n ((change ''Value changed'')
             \<lparr>oldValue := Some (Num (Finite i)), newValue := Some (Num (Finite j))\<rparr>)))"
  "diff (Str s) (Str t) n =
     (if s = t then None
      else Some (Single n ((change ''Value changed'')
             \<lparr>oldValue := Some (Str s), newValue := Some (Str t)\<rparr>)))"
  by (simp_all add: diff_primitives_unfold)

text \<open>
  Claim C5. When the two inputs are not both nullish and their \<^verbatim>\<open>typeof\<close> tags differ,
  \<open>diff\<close> returns the single entry \<^verbatim>\<open>Type changed from ... to ...\<close> whose \<open>oldValue\<close> and
  \<open>newValue\<close> are the serializations of the two inputs; this holds also when one input is
  nullish, so the branch comes before the property-added and property-removed ones. \<^verbatim>\<open>null\<close>
  against an object has equal tags and gives a property-added (or property-removed) entry.
\<close>

theorem diff_type_changed:
  "(\<not> (nullish a \<and> nullish b) \<and> typeof a \<noteq> typeof b \<longrightarrow>
      diff a b n = Some (Single n
        \<lparr>description = ''Type changed from '' @ type_name (typeof a) @ '' to '' @ type_name (typeof b),
         oldValue = Some (serializeValue a), newValue = Some (serializeValue b),
         added = None, removed = None, properties = None\<rparr>))
   \<and> diff Null (Obj kvs) n = Some (Single n
        \<lparr>description = ''Property added'', oldValue = None,
         newValue = Some (serializeValue (Obj kvs)), added = None, removed = None, properties = None\<rparr>)
   \<and> diff (Obj kvs) Null n = Some (Single n
        \<lparr>description = ''Property removed'', oldValue = Some (serializeValue (Obj kvs)),
         newValue = None, added = None, removed = None, properties = None\<rparr>)"
  by (simp add: diff_typeof_differs diff_old_nullish diff_new_nullish change_def)

text \<open>A string against a number, and \<^verbatim>\<open>undefined\<close> against a string.\<close>

theorem diff_type_changed_witness:
  "diff (Str ''5'') (Num (Finite 5)) ''v'' = Some (Single ''v''
     \<lparr>description = ''Type changed from string to number'',
      oldValue = Some (Str [CHR 0x22, CHR ''5'', CHR 0x22]), newValue = Some (Str ''5''),
      added = None, removed = None, properties = None\<rparr>)
   \<and> diff Undefined (Str ''x'') ''v'' = Some (Single ''v''
     \<lparr>description = ''Type changed from undefined to string'',
      oldValue = Some Undefined, newValue = Some (Str [CHR 0x22, CHR ''x'', CHR 0x22]),
      added = None, removed = None, properties = None\<rparr>)"
  using diff_type_changed[of "Str ''5''" "Num (Finite 5)" "''v''"]
    diff_type_changed[of Undefined "Str ''x''" "''v''"]
  by (simp add: json_eval)

text \<open>
  Claim C3. On two arrays, elements count through their serialization only, whatever
  their order and multiplicity. When every element of each array has its serialization
  among those of the other array the result is \<^verbatim>\<open>null\<close>. Otherwise it is one entry
  \<^verbatim>\<open>Array modified\<close>, whose \<open>removed\<close> is the serialized list of the elements found only in
  the old array and whose \<open>added\<close> is the serialized list of those found only in the new
  one, a field being absent when its list is empty. In particular
  \<^verbatim>\<open>diff([1,2,3], [2,3,4], 'nums')\<close> has \<open>removed\<close> \<^verbatim>\<open>[1]\<close> and \<open>added\<close> \<^verbatim>\<open>[4]\<close>.
\<close>

theorem diff_arrays:
  "diff (Arr old) (Arr new) name =
     (let onlyOld = filter (\<lambda>x. serializeValue x \<notin> serializeValue ` set new) old;
          onlyNew = filter (\<lambda>x. serializeValue x \<notin> serializeValue ` set old) new
      in if (\<forall>x \<in> set old. serializeValue x \<in> serializeValue ` set new) \<and>
            (\<forall>x \<in> set new. serializeValue x \<in> serializeValue ` set old)
         then None
         else Some (Single name
           \<lparr>description = ''Array modified'', oldValue = None, newValue = None,
            added = (if onlyNew = [] then None else Some (serializeValue (Arr onlyNew))),
            removed = (if onlyOld = [] then None else Some (serializeValue (Arr onlyOld))),
            properties = None\<rparr>))
   \<and> diff (Arr [Num (Finite 1), Num (Finite 2), Num (Finite 3)])
          (Arr [Num (Finite 2), Num (Finite 3), Num (Finite 4)]) ''nums''
       = Some (Single ''nums''
           \<lparr>description = ''Array modified'', oldValue = None, newValue = None,
            added = Some (Str ''[4]''), removed = Some (Str ''[1]''), properties = None\<rparr>)"
proof -
  have general: "diff (Arr old) (Arr new) name =
     (let onlyOld = filter (\<lambda>x. serializeValue x \<notin> serializeValue ` set new) old;
          onlyNew = filter (\<lambda>x. serializeValue x \<notin> serializeValue ` set old) new
      in if (\<forall>x \<in> set old. serializeValue x \<in> serializeValue ` set new) \<and>
            (\<forall>x \<in> set new. serializeValue x \<in> serializeValue ` set old)
         then None
         else Some (Single name
           \<lparr>description = ''Array modified'', oldValue = None, newValue = None,
            added = (if onlyNew = [] then None else Some (serializeValue (Arr onlyNew))),
            removed = (if onlyOld = [] then None else Some (serializeValue (Arr onlyOld))),
            properties = None\<rparr>))" for old new name
    unfolding diff_arrays_unfold Let_def
    by (auto simp: filter_empty_conv change_def)
  have example: "diff (Arr [Num (Finite 1), Num (Finite 2), Num (Finite 3)])
          (Arr [Num (Finite 2), Num (Finite 3), Num (Finite 4)]) ''nums''
       = Some (Single ''nums''
           \<lparr>description = ''Array modified'', oldValue = None, newValue = None,
            added = Some (Str ''[4]''), removed = Some (Str ''[1]''), properties = None\<rparr>)"
    unfolding general by (simp add: json_eval)
  from general example show ?thesis by simp
qed

text \<open>
  \<^verbatim>\<open>[1,1,2]\<close> against \<^verbatim>\<open>[2,1]\<close> is no difference; \<^verbatim>\<open>['a','b']\<close> against \<^verbatim>\<open>['a']\<close> has a
  \<open>removed\<close> field and no \<open>added\<close> field.
\<close>

theorem diff_arrays_witness:
  "diff (Arr [Num (Finite 1), Num (Finite 1), Num (Finite 2)]) (Arr [Num (Finite 2), Num (Finite 1)]) ''xs''
     = None
   \<and> diff (Arr [Str ''a'', Str ''b'']) (Arr [Str ''a'']) ''xs''
     = Some (Single ''xs''
         \<lparr>description = ''Array modified'', oldValue = None, newValue = None,
          added = None, removed = Some (Str [CHR ''['', CHR 0x22, CHR ''b'', CHR 0x22, CHR '']'']),
          properties = None\<rparr>)"
  using diff_arrays[of "[Num (Finite 1), Num (Finite 1), Num (Finite 2)]" "[Num (Finite 2), Num (Finite 1)]" "''xs''"]
    diff_arrays[of "[Str ''a'', Str ''b'']" "[Str ''a'']" "''xs''"]
  by (simp add: json_eval)

text \<open>
  Claim C4. On two objects that are not arrays the list of differences is, in this order:
  one entry \<^verbatim>\<open>Properties added\<close> when some key is in the new object only, its
  \<open>properties\<close> the object of these keys with their new values as they are; one entry
  \<^verbatim>\<open>Properties removed\<close> when some key is in the old object only, its \<open>properties\<close> the list
  of these keys; then the results of the recursive calls on the common keys that are not
  \<^verbatim>\<open>null\<close>, in the order of the keys of the old object. An empty list gives \<^verbatim>\<open>null\<close>, any
  other list is returned under the name. In particular for
  \<^verbatim>\<open>diff({a:1}, {a:1,b:2}, 'obj')\<close>.
\<close>

theorem diff_objects:
  "diff (Obj old) (Obj new) name =
     (let addedKeys = filter (\<lambda>k. k \<notin> fst ` set old) (map fst new);
          removedKeys = filter (\<lambda>k. k \<notin> fst ` set new) (map fst old);
          commonKeys = filter (\<lambda>k. k \<in> fst ` set new) (map fst old);
          differences =
            (if addedKeys = [] then []
             else [ItemChange
               \<lparr>description = ''Properties added'', oldValue = None, newValue = None, added = None,
                removed = None, properties = Some (Obj (map (\<lambda>k. (k, get new k)) addedKeys))\<rparr>])
            @ (if removedKeys = [] then []
               else [ItemChange
                 \<lparr>description = ''Properties removed'', oldValue = None, newValue = None, added = None,
                  removed = None, properties = Some (Arr (map Str removedKeys))\<rparr>])
            @ map ItemResult (non_null (map (\<lambda>k. diff (get old k) (get new k) k) commonKeys))
      in if differences = [] then None else Some (Multiple name differences))
   \<and> diff (Obj [(''a'', Num (Finite 1))]) (Obj [(''a'', Num (Finite 1)), (''b'', Num (Finite 2))]) ''obj''
       = Some (Multiple ''obj''
           [ItemChange
              \<lparr>description = ''Properties added'', oldValue = None, newValue = None, added = None,
               removed = None, properties = Some (Obj [(''b'', Num (Finite 2))])\<rparr>])"
proof -
  have general: "diff (Obj old) (Obj new) name =
     (let addedKeys = filter (\<lambda>k. k \<notin> fst ` set old) (map fst new);
          removedKeys = filter (\<lambda>k. k \<notin> fst ` set new) (map fst old);
          commonKeys = filter (\<lambda>k. k \<in> fst ` set new) (map fst old);
          differences =
            (if addedKeys = [] then []
             else [ItemChange
               \<lparr>description = ''Properties added'', oldValue = None, newValue = None, added = None,
                removed = None, properties = Some (Obj (map (\<lambda>k. (k, get new k)) addedKeys))\<rparr>])
            @ (if removedKeys = [] then []
               else [ItemChange
                 \<lparr>description = ''Properties removed'', oldValue = None, newValue = None, added = None,
                  removed = None, properties = Some (Arr (map Str removedKeys))\<rparr>])
            @ map ItemResult (non_null (map (\<lambda>k. diff (get old k) (get new k) k) commonKeys))
      in if differences = [] then None else Some (Multiple name differences))" for old new name
    by (simp add: diff_objects_unfold object_differences_def Let_def change_def)
  have example:
    "diff (Obj [(''a'', Num (Finite 1))]) (Obj [(''a'', Num (Finite 1)), (''b'', Num (Finite 2))]) ''obj''
       = Some (Multiple ''obj''
           [ItemChange
              \<lparr>description = ''Properties added'', oldValue = None, newValue = None, added = None,
               removed = None, properties = Some (Obj [(''b'', Num (Finite 2))])\<rparr>])"
    unfolding general by (simp add: get_def diff_primitive_values)
  from general example show ?thesis by simp
qed

text \<open>One key added, one removed, one changed and one unchanged.\<close>

theorem diff_objects_witness:
  "diff (Obj [(''a'', Num (Finite 1)), (''b'', Num (Finite 2)), (''c'', Num (Finite 3))])
        (Obj [(''c'', Num (Finite 4)), (''d'', Num (Finite 5)), (''a'', Num (Finite 1))]) ''o''
     = Some (Multiple ''o''
         [ItemChange
            \<lparr>description = ''Properties added'', oldValue = None, newValue = None, added = None,
             removed = None, properties = Some (Obj [(''d'', Num (Finite 5))])\<rparr>,
          ItemChange
            \<lparr>description = ''Properties removed'', oldValue = None, newValue = None, added = None,
             removed = None, properties = Some (Arr [Str ''b''])\<rparr>,
          ItemResult (Single ''c''
            \<lparr>description = ''Value changed'', oldValue = Some (Num (Finite 3)),
             newValue = Some (Num (Finite 4)), added = None, removed = None, properties = None\<rparr>)])"
  using diff_objects[of "[(''a'', Num (Finite 1)), (''b'', Num (Finite 2)), (''c'', Num (Finite 3))]"
      "[(''c'', Num (Finite 4)), (''d'', Num (Finite 5)), (''a'', Num (Finite 1))]" "''o''"]
  by (simp add: get_def diff_primitive_values change_def)

text \<open>
  Claim C2. On \<^verbatim>\<open>diff({name:'John',age:30}, {name:'Jane',age:30}, 'user')\<close> the list under
  \<^verbatim>\<open>user\<close> has one item, and that item is the result of the recursive call: the change
  record under the key \<^verbatim>\<open>name\<close>. It is not the bare change record that the example in the
  documentation of \<^verbatim>\<open>diff\<close> shows.
\<close>

theorem diff_user_example:
  "diff (Obj [(''name'', Str ''John''), (''age'', Num (Finite 30))])
        (Obj [(''name'', Str ''Jane''), (''age'', Num (Finite 30))]) ''user''
     = Some (Multiple ''user''
         [ItemResult (Single ''name''
            \<lparr>description = ''Value changed'', oldValue = Some (Str ''John''),
             newValue = Some (Str ''Jane''), added = None, removed = None, properties = None\<rparr>)])
   \<and> diff (Obj [(''name'', Str ''John''), (''age'', Num (Finite 30))])
        (Obj [(''name'', Str ''Jane''), (''age'', Num (Finite 30))]) ''user''
     \<noteq> Some (Multiple ''user''
         [ItemChange
            \<lparr>description = ''Value changed'', oldValue = Some (Str ''John''),
             newValue = Some (Str ''Jane''), added = None, removed = None, properties = None\<rparr>])"
  by (simp add: diff_objects_unfold object_differences_def get_def diff_primitive_values change_def)

text \<open>
  Claim C1, as amended. For every value \<open>x\<close> from which no \<^verbatim>\<open>NaN\<close> is reached through object
  properties alone, \<open>diff x x n\<close> is \<^verbatim>\<open>null\<close>. More generally \<open>diff a b n\<close> is \<^verbatim>\<open>null\<close> for two
  such values that are deeply equal when, in addition, every two arrays found at the same
  place (under the same object keys) have the same set of element serializations; that
  relation is a part of deep equality.
\<close>

theorem diff_equal_values:
  "(no_NaN_outside_arrays x \<longrightarrow> diff x x n = None)
   \<and> (no_NaN_outside_arrays a \<and> deep_equal_by_serialization a b \<longrightarrow> diff a b n = None)
   \<and> (deep_equal_by_serialization a b \<longrightarrow> deep_equal a b)"
  by (simp add: diff_same_value diff_deep_equal deep_equal_by_serialization_deep_equal)

text \<open>
  An object against itself, and against a deeply equal object with its keys in the other
  order whose array holds the same two objects in the other order; the \<^verbatim>\<open>NaN\<close> is inside
  an array.
\<close>

theorem diff_equal_values_witness:
  "diff (Obj [(''a'', Arr [Num NaN, Str ''x'']), (''b'', Num (Finite 2))])
        (Obj [(''a'', Arr [Num NaN, Str ''x'']), (''b'', Num (Finite 2))]) ''n'' = None
   \<and> diff (Obj [(''a'', Arr [Obj [(''x'', Num (Finite 1)), (''y'', Num NaN)],
                            Obj [(''y'', Num NaN), (''x'', Num (Finite 1))]]),
                (''b'', Num (Finite 2))])
          (Obj [(''b'', Num (Finite 2)),
                (''a'', Arr [Obj [(''y'', Num NaN), (''x'', Num (Finite 1))],
                            Obj [(''x'', Num (Finite 1)), (''y'', Num NaN)]])]) ''n'' = None"
proof -
  have "no_NaN_outside_arrays (Obj [(''a'', Arr [Num NaN, Str ''x'']), (''b'', Num (Finite 2))])"
    by simp
  then have first: "diff (Obj [(''a'', Arr [Num NaN, Str ''x'']), (''b'', Num (Finite 2))])
        (Obj [(''a'', Arr [Num NaN, Str ''x'']), (''b'', Num (Finite 2))]) ''n'' = None"
    using diff_equal_values[THEN conjunct1] by blast
  have "no_NaN_outside_arrays
      (Obj [(''a'', Arr [Obj [(''x'', Num (Finite 1)), (''y'', Num NaN)],
                        Obj [(''y'', Num NaN), (''x'', Num (Finite 1))]]),
            (''b'', Num (Finite 2))])"
    by simp
  moreover have "deep_equal_by_serialization
      (Obj [(''a'', Arr [Obj [(''x'', Num (Finite 1)), (''y'', Num NaN)],
                        Obj [(''y'', Num NaN), (''x'', Num (Finite 1))]]),
            (''b'', Num (Finite 2))])
      (Obj [(''b'', Num (Finite 2)),
            (''a'', Arr [Obj [(''y'', Num NaN), (''x'', Num (Finite 1))],
                        Obj [(''x'', Num (Finite 1)), (''y'', Num NaN)]])])"
    by (auto simp: get_def json_eval)
  ultimately have "diff (Obj [(''a'', Arr [Obj [(''x'', Num (Finite 1)), (''y'', Num NaN)],
                            Obj [(''y'', Num NaN), (''x'', Num (Finite 1))]]),
                (''b'', Num (Finite 2))])
          (Obj [(''b'', Num (Finite 2)),
                (''a'', Arr [Obj [(''y'', Num NaN), (''x'', Num (Finite 1))],
                            Obj [(''x'', Num (Finite 1)), (''y'', Num NaN)]])]) ''n'' = None"
    using diff_equal_values[THEN conjunct2, THEN conjunct1] by blast
  with first show ?thesis by blast
qed

text \<open>
  Claim C1 as stated fails at two inputs: \<open>diff\<close> returns a result for \<^verbatim>\<open>NaN\<close> against
  \<^verbatim>\<open>NaN\<close>, and it returns a result for the deeply equal arrays \<^verbatim>\<open>[{a:1,b:2}]\<close> and
  \<^verbatim>\<open>[{b:2,a:1}]\<close>.
\<close>

theorem diff_equal_values_counterexample:
  "diff (Num NaN) (Num NaN) ''n'' \<noteq> None
   \<and> deep_equal (Arr [Obj [(''a'', Num (Finite 1)), (''b'', Num (Finite 2))]])
                (Arr [Obj [(''b'', Num (Finite 2)), (''a'', Num (Finite 1))]])
   \<and> diff (Arr [Obj [(''a'', Num (Finite 1)), (''b'', Num (Finite 2))]])
          (Arr [Obj [(''b'', Num (Finite 2)), (''a'', Num (Finite 1))]]) ''n'' \<noteq> None"
proof -
  have "diff (Num NaN) (Num NaN) ''n'' \<noteq> None"
    by (simp add: diff_primitives_unfold)
  moreover have "deep_equal (Arr [Obj [(''a'', Num (Finite 1)), (''b'', Num (Finite 2))]])
                (Arr [Obj [(''b'', Num (Finite 2)), (''a'', Num (Finite 1))]])"
    by (auto simp: get_def)
  moreover have "diff (Arr [Obj [(''a'', Num (Finite 1)), (''b'', Num (Finite 2))]])
          (Arr [Obj [(''b'', Num (Finite 2)), (''a'', Num (Finite 1))]]) ''n'' \<noteq> None"
    by (simp add: diff_arrays_None_iff json_eval)
  ultimately show ?thesis by simp
qed

text \<open>
  Claim C6. \<open>diff a b n\<close> is \<^verbatim>\<open>null\<close> exactly when \<open>diff b a n\<close> is: detecting a difference does
  not depend on the order of the two inputs.
\<close>

theorem diff_detection_symmetric:
  "(diff a b n = None) \<longleftrightarrow> (diff b a n = None)"
  by (rule diff_None_sym)

end
